theory Spec2Isabelle
  imports Complex_Main "HOL-Library.Word"
begin

section \<open>The order book of \<^verbatim>\<open>orderbook/\<close>: data model\<close>

text \<open>
  The Go package keeps, per side, a sorted slice of prices and a map from price to
  quantity, and per book the two sides and the last applied update id.

  \<^item> Sequence numbers are \<^verbatim>\<open>int64\<close>: they are \<open>64 word\<close>, \<open>+\<close> wraps as Go's does, and
    the comparisons of the source are comparisons of the signed readings \<open>sint\<close>.
  \<^item> Prices and quantities are \<^verbatim>\<open>float64\<close>. The source never computes with them: it
    only compares them (\<^verbatim>\<open><=\<close>, \<^verbatim>\<open>>=\<close>, \<^verbatim>\<open>==\<close>, \<^verbatim>\<open>> 0\<close>, \<^verbatim>\<open>== 0\<close>), sorts them and uses them as
    map keys. They are modelled by an arbitrary linearly ordered type \<open>'a\<close> with a zero.
    This covers every \<^verbatim>\<open>float64\<close> value that is a number, \<^verbatim>\<open>-0\<close> and \<^verbatim>\<open>+0\<close> being one
    value as they are for \<^verbatim>\<open>==\<close> and for map keys; the value NaN, which is unordered, is
    outside the model. \<^verbatim>\<open>strconv.ParseFloat\<close> accepts the string \<^verbatim>\<open>NaN\<close>; Go finds no map
    key equal to NaN and every comparison with NaN is false. What is proved here is proved
    of the runs in which no price and no quantity is NaN.
  \<^item> \<^verbatim>\<open>strconv.ParseFloat\<close> belongs to Go's library. It is a parameter \<open>pf\<close> of every
    function that calls it, returning the value and the error (\<open>None\<close> is \<^verbatim>\<open>nil\<close>) as the Go
    function does.
  \<^item> The mutex only serialises calls; every operation is a function from the state
    before the call to the state after it.
  \<^item> A call either returns or panics: a result is \<open>panic + 'r\<close>, and the state
    returned with a panic is the state at the moment of the panic.
\<close>

datatype error = ErrGap | NumError string

datatype panic = IndexOutOfRange | MakesliceLenOutOfRange

type_synonym 'a ParseFloat = "string \<Rightarrow> 'a \<times> error option"

record SnapshotMsg =
  LastUpdateID :: "64 word"
  Bids :: "string list list"
  Asks :: "string list list"

record UpdateMsg =
  FirstID :: "64 word"
  FinalID :: "64 word"
  Bids :: "string list list"
  Asks :: "string list list"

record 'a levelMap =
  isBid :: bool
  prices :: "'a list"
  qtyAt :: "'a \<rightharpoonup> 'a"

record 'a OrderBook =
  lastID :: "64 word"
  bids :: "'a levelMap"
  asks :: "'a levelMap"

record 'a Level =
  Price :: 'a
  Quantity :: 'a

text \<open>Reading a Go map at a key it does not hold gives the zero value.\<close>

definition lookup :: "('a \<rightharpoonup> 'a::zero) \<Rightarrow> 'a \<Rightarrow> 'a" where
  "lookup m p = (case m p of None \<Rightarrow> 0 | Some q \<Rightarrow> q)"

section \<open>The sorted price table\<close>

definition newLevelMap :: "bool \<Rightarrow> 'a levelMap" where
  "newLevelMap b = \<lparr>isBid = b, prices = [], qtyAt = Map.empty\<rparr>"

text \<open>
  \<^verbatim>\<open>sort.Search(n, f)\<close> of Go's library: the loop \<^verbatim>\<open>for i < j\<close> over \<^verbatim>\<open>i, j := 0, n\<close> with
  \<^verbatim>\<open>h := int(uint(i+j) >> 1)\<close>, \<^verbatim>\<open>i = h + 1\<close> when \<^verbatim>\<open>!f(h)\<close> and \<^verbatim>\<open>j = h\<close> otherwise.
\<close>

function Search_loop :: "(nat \<Rightarrow> bool) \<Rightarrow> nat \<Rightarrow> nat \<Rightarrow> nat" where
  "Search_loop f i j =
     (if i < j then
        (let h = (i + j) div 2
         in if \<not> f h then Search_loop f (h + 1) j else Search_loop f i h)
      else i)"
  by pat_completeness auto
termination
  by (relation "measure (\<lambda>(f, i, j). j - i)") auto

declare Search_loop.simps [simp del]

definition Search :: "nat \<Rightarrow> (nat \<Rightarrow> bool) \<Rightarrow> nat" where
  "Search n f = Search_loop f 0 n"

text \<open>The position the binary search of \<^verbatim>\<open>insertPrice\<close> and \<^verbatim>\<open>removePrice\<close> finds.\<close>

definition searchPos :: "'a::linorder levelMap \<Rightarrow> 'a \<Rightarrow> nat" where
  "searchPos lm price =
     (let n = length (prices lm)
      in if isBid lm then Search n (\<lambda>i. prices lm ! i \<le> price)
         else Search n (\<lambda>i. prices lm ! i \<ge> price))"

definition insertPrice :: "'a::linorder levelMap \<Rightarrow> 'a \<Rightarrow> 'a levelMap" where
  "insertPrice lm price =
     (let insertPos = searchPos lm price
      in lm\<lparr>prices := take insertPos (prices lm) @ price # drop insertPos (prices lm)\<rparr>)"

definition removePrice :: "'a::linorder levelMap \<Rightarrow> 'a \<Rightarrow> 'a levelMap" where
  "removePrice lm price =
     (let n = length (prices lm); pos = searchPos lm price
      in if pos < n \<and> prices lm ! pos = price
         then lm\<lparr>prices := take pos (prices lm) @ drop (pos + 1) (prices lm)\<rparr>
         else lm)"

text \<open>The method \<^verbatim>\<open>set\<close> of \<^verbatim>\<open>levelMap\<close>.\<close>

definition levelMap_set :: "'a::{linorder,zero} levelMap \<Rightarrow> 'a \<Rightarrow> 'a \<Rightarrow> 'a levelMap" where
  "levelMap_set lm price qty =
     (let exists = (qtyAt lm price \<noteq> None)
      in if qty = 0 then
           (if exists then removePrice (lm\<lparr>qtyAt := (qtyAt lm)(price := None)\<rparr>) price
            else lm)
         else
           (let lm' = lm\<lparr>qtyAt := (qtyAt lm)(price \<mapsto> qty)\<rparr>
            in if \<not> exists then insertPrice lm' price else lm'))"

definition best :: "'a::zero levelMap \<Rightarrow> 'a \<times> 'a \<times> bool" where
  "best lm =
     (if length (prices lm) = 0 then (0, 0, False)
      else (let p = prices lm ! 0 in (p, lookup (qtyAt lm) p, True)))"

section \<open>The book\<close>

definition New :: "'a OrderBook" where
  "New = \<lparr>lastID = 0, bids = newLevelMap True, asks = newLevelMap False\<rparr>"

definition BestBid :: "'a::zero OrderBook \<Rightarrow> 'a \<times> 'a \<times> bool" where
  "BestBid ob = best (bids ob)"

definition BestAsk :: "'a::zero OrderBook \<Rightarrow> 'a \<times> 'a \<times> bool" where
  "BestAsk ob = best (asks ob)"

definition GetLastID :: "'a OrderBook \<Rightarrow> 64 word" where
  "GetLastID ob = lastID ob"

definition min_int :: "int \<Rightarrow> int \<Rightarrow> int" where
  "min_int a b = (if a < b then a else b)"

text \<open>
  In \<^verbatim>\<open>GetBids\<close> and \<^verbatim>\<open>GetAsks\<close>, \<^verbatim>\<open>make([]Level, count)\<close> panics when \<open>count\<close> is
  negative; otherwise the loop fills the indices \<open>0 \<dots> count - 1\<close>.
\<close>

definition GetBids :: "'a::zero OrderBook \<Rightarrow> int \<Rightarrow> panic + 'a Level list" where
  "GetBids ob maxLevels =
     (let count = min_int (int (length (prices (bids ob)))) maxLevels
      in if count < 0 then Inl MakesliceLenOutOfRange
         else Inr (map (\<lambda>i. (let price = prices (bids ob) ! i
                             in \<lparr>Price = price, Quantity = lookup (qtyAt (bids ob)) price\<rparr>))
                       [0 ..< nat count]))"

definition GetAsks :: "'a::zero OrderBook \<Rightarrow> int \<Rightarrow> panic + 'a Level list" where
  "GetAsks ob maxLevels =
     (let count = min_int (int (length (prices (asks ob)))) maxLevels
      in if count < 0 then Inl MakesliceLenOutOfRange
         else Inr (map (\<lambda>i. (let price = prices (asks ob) ! i
                             in \<lparr>Price = price, Quantity = lookup (qtyAt (asks ob)) price\<rparr>))
                       [0 ..< nat count]))"

section \<open>Loading a snapshot\<close>

text \<open>
  One of the two loops of \<^verbatim>\<open>ApplySnapshot\<close>: it fills the side's map and the local slice
  of prices. The second component is \<open>None\<close> when the loop ends, and the way the function
  is left otherwise: a panic of \<^verbatim>\<open>lvl[0]\<close> or \<^verbatim>\<open>lvl[1]\<close>, or \<^verbatim>\<open>return err1\<close>.
\<close>

fun snapshotLevels ::
  "'a::{linorder,zero} ParseFloat \<Rightarrow> string list list \<Rightarrow> ('a \<rightharpoonup> 'a) \<Rightarrow> 'a list
     \<Rightarrow> (('a \<rightharpoonup> 'a) \<times> 'a list) \<times> (panic + error option) option" where
  "snapshotLevels pf [] m ps = ((m, ps), None)"
| "snapshotLevels pf (lvl # rest) m ps =
     (if length lvl < 2 then ((m, ps), Some (Inl IndexOutOfRange))
      else
        (let (price, err1) = pf (lvl ! 0);
             (qty, err2) = pf (lvl ! 1)
         in if err1 \<noteq> None \<or> err2 \<noteq> None then ((m, ps), Some (Inr err1))
            else if qty > 0 then snapshotLevels pf rest (m(price \<mapsto> qty)) (ps @ [price])
            else snapshotLevels pf rest m ps))"

definition ApplySnapshot ::
  "'a::{linorder,zero} ParseFloat \<Rightarrow> 'a OrderBook \<Rightarrow> SnapshotMsg
     \<Rightarrow> 'a OrderBook \<times> (panic + error option)" where
  "ApplySnapshot pf ob snap =
     (let ob1 = ob\<lparr>bids := \<lparr>isBid = True, prices = [], qtyAt = Map.empty\<rparr>,
                   asks := \<lparr>isBid = False, prices = [], qtyAt = Map.empty\<rparr>\<rparr>
      in case snapshotLevels pf (SnapshotMsg.Bids snap) Map.empty [] of
           ((bm, bidPrices), Some exit) \<Rightarrow> (ob1\<lparr>bids := (bids ob1)\<lparr>qtyAt := bm\<rparr>\<rparr>, exit)
         | ((bm, bidPrices), None) \<Rightarrow>
             (let ob2 = ob1\<lparr>bids := (bids ob1)\<lparr>qtyAt := bm, prices := rev (sort bidPrices)\<rparr>\<rparr>
              in case snapshotLevels pf (SnapshotMsg.Asks snap) Map.empty [] of
                   ((am, askPrices), Some exit) \<Rightarrow> (ob2\<lparr>asks := (asks ob2)\<lparr>qtyAt := am\<rparr>\<rparr>, exit)
                 | ((am, askPrices), None) \<Rightarrow>
                     (ob2\<lparr>asks := (asks ob2)\<lparr>qtyAt := am, prices := sort askPrices\<rparr>,
                          lastID := LastUpdateID snap\<rparr>, Inr None)))"

section \<open>Applying an update\<close>

text \<open>The closure \<^verbatim>\<open>parseLevels\<close> of \<^verbatim>\<open>ApplyUpdate\<close>, with the table it mutates.\<close>

fun parseLevels ::
  "'a::{linorder,zero} ParseFloat \<Rightarrow> string list list \<Rightarrow> 'a levelMap
     \<Rightarrow> 'a levelMap \<times> (panic + error option)" where
  "parseLevels pf [] m = (m, Inr None)"
| "parseLevels pf (lvl # rest) m =
     (if length lvl < 2 then (m, Inl IndexOutOfRange)
      else
        (let (price, err1) = pf (lvl ! 0);
             (qty, err2) = pf (lvl ! 1)
         in if err1 \<noteq> None \<or> err2 \<noteq> None then (m, Inr err1)
            else parseLevels pf rest (levelMap_set m price qty)))"

definition ApplyUpdate ::
  "'a::{linorder,zero} ParseFloat \<Rightarrow> 'a OrderBook \<Rightarrow> UpdateMsg
     \<Rightarrow> 'a OrderBook \<times> (panic + error option)" where
  "ApplyUpdate pf ob upd =
     (if sint (FinalID upd) < sint (lastID ob + 1) then (ob, Inr None)
      else if sint (lastID ob + 1) < sint (FirstID upd)
              \<or> sint (FinalID upd) < sint (lastID ob + 1) then (ob, Inr (Some ErrGap))
      else
        (case parseLevels pf (UpdateMsg.Bids upd) (bids ob) of
           (bm, Inl p) \<Rightarrow> (ob\<lparr>bids := bm\<rparr>, Inl p)
         | (bm, Inr (Some err)) \<Rightarrow> (ob\<lparr>bids := bm\<rparr>, Inr (Some err))
         | (bm, Inr None) \<Rightarrow>
             (case parseLevels pf (UpdateMsg.Asks upd) (asks ob) of
                (am, Inl p) \<Rightarrow> (ob\<lparr>bids := bm, asks := am\<rparr>, Inl p)
              | (am, Inr (Some err)) \<Rightarrow> (ob\<lparr>bids := bm, asks := am\<rparr>, Inr (Some err))
              | (am, Inr None) \<Rightarrow>
                  (ob\<lparr>bids := bm, asks := am, lastID := FinalID upd\<rparr>, Inr None))))"

section \<open>Notions used to state the properties\<close>

text \<open>
  An entry of a message is well formed for a parser when it holds the two strings the
  loops read and both parse without error. \<open>levelPrice\<close> and \<open>levelQty\<close> are the two
  numbers the loops parse out of an entry.
\<close>

definition wellFormed :: "'a ParseFloat \<Rightarrow> string list \<Rightarrow> bool" where
  "wellFormed pf lvl \<longleftrightarrow>
     2 \<le> length lvl \<and> snd (pf (lvl ! 0)) = None \<and> snd (pf (lvl ! 1)) = None"

definition levelPrice :: "'a ParseFloat \<Rightarrow> string list \<Rightarrow> 'a" where
  "levelPrice pf lvl = fst (pf (lvl ! 0))"

definition levelQty :: "'a ParseFloat \<Rightarrow> string list \<Rightarrow> 'a" where
  "levelQty pf lvl = fst (pf (lvl ! 1))"

text \<open>Calling \<open>set\<close> once per entry, in the order of the message.\<close>

definition applyLevels ::
  "'a::{linorder,zero} ParseFloat \<Rightarrow> string list list \<Rightarrow> 'a levelMap \<Rightarrow> 'a levelMap" where
  "applyLevels pf es lm =
     foldl (\<lambda>m lvl. levelMap_set m (levelPrice pf lvl) (levelQty pf lvl)) lm es"

text \<open>Every key of the quantity map is listed in the slice of prices.\<close>

definition keysListed :: "'a levelMap \<Rightarrow> bool" where
  "keysListed lm \<longleftrightarrow> dom (qtyAt lm) \<subseteq> set (prices lm)"

text \<open>No bid price of the book reaches an ask price of the book.\<close>

definition uncrossed :: "'a::linorder OrderBook \<Rightarrow> bool" where
  "uncrossed ob \<longleftrightarrow> (\<forall>b\<in>set (prices (bids ob)). \<forall>a\<in>set (prices (asks ob)). b < a)"

text \<open>
  The entries a snapshot loop keeps: those with a strictly positive quantity, in the order
  of the message; their prices; and the map they leave, a later entry for a price
  replacing an earlier one.
\<close>

definition keptLevels :: "'a::{linorder,zero} ParseFloat \<Rightarrow> string list list \<Rightarrow> ('a \<times> 'a) list" where
  "keptLevels pf es =
     filter (\<lambda>(p, q). 0 < q) (map (\<lambda>lvl. (levelPrice pf lvl, levelQty pf lvl)) es)"

definition keptPrices :: "'a::{linorder,zero} ParseFloat \<Rightarrow> string list list \<Rightarrow> 'a list" where
  "keptPrices pf es = map fst (keptLevels pf es)"

definition keptMap :: "'a::{linorder,zero} ParseFloat \<Rightarrow> string list list \<Rightarrow> ('a \<rightharpoonup> 'a)" where
  "keptMap pf es = map_of (rev (keptLevels pf es))"

text \<open>
  The prices a table lists after a diff's entries, starting from the set \<open>S\<close> it listed
  before: an entry with quantity zero takes its price out, any other entry puts it in,
  in the order of the message.
\<close>

definition pricesAfter :: "'a::{linorder,zero} ParseFloat \<Rightarrow> string list list \<Rightarrow> 'a set \<Rightarrow> 'a set" where
  "pricesAfter pf es S =
     foldl (\<lambda>S lvl. if levelQty pf lvl = 0 then S - {levelPrice pf lvl}
                     else insert (levelPrice pf lvl) S) S es"

text \<open>
  The order of a side, bids from the highest price down and asks from the lowest price
  up, and the invariant of a table: its slice of prices is strictly sorted in that order
  (hence without duplicates) and lists exactly the keys of its map.
\<close>

definition before :: "'a::linorder levelMap \<Rightarrow> 'a \<Rightarrow> 'a \<Rightarrow> bool" where
  "before lm a b \<longleftrightarrow> (if isBid lm then b < a else a < b)"

definition tableInv :: "'a::linorder levelMap \<Rightarrow> bool" where
  "tableInv lm \<longleftrightarrow> sorted_wrt (before lm) (prices lm) \<and> set (prices lm) = dom (qtyAt lm)"

text \<open>
  The invariant of a book: the bid table is tagged as bid side, the ask table is not, and
  both tables satisfy the invariant of a table.
\<close>

definition bookInv :: "'a::linorder OrderBook \<Rightarrow> bool" where
  "bookInv ob \<longleftrightarrow>
     isBid (bids ob) \<and> \<not> isBid (asks ob) \<and> tableInv (bids ob) \<and> tableInv (asks ob)"

subsection \<open>A parser for concrete runs\<close>

text \<open>
  Concrete runs need a concrete parser. \<open>parseDecimal\<close> reads an optional minus sign,
  digits, and optionally a point followed by digits, as a rational number, and reports
  \<open>NumError\<close> on anything else. On the strings of the runs below (\<open>''0''\<close>, \<open>''1''\<close>,
  \<open>''2''\<close>, \<open>''50''\<close>, \<open>''100''\<close>, \<open>''101''\<close>, \<open>''-5''\<close>, \<open>''x''\<close>) it returns what \<^verbatim>\<open>strconv.ParseFloat\<close> returns. The general
  theorems hold for every parser.
\<close>

definition digitVal :: "char \<Rightarrow> nat option" where
  "digitVal c =
     (let n = (of_char c :: nat) in if 48 \<le> n \<and> n \<le> 57 then Some (n - 48) else None)"

fun digitsVal :: "string \<Rightarrow> nat \<Rightarrow> nat option" where
  "digitsVal [] acc = Some acc"
| "digitsVal (c # cs) acc =
     (case digitVal c of None \<Rightarrow> None | Some d \<Rightarrow> digitsVal cs (10 * acc + d))"

definition parseDecimal :: "rat ParseFloat" where
  "parseDecimal s =
     (let neg = (s \<noteq> [] \<and> hd s = CHR ''-'');
          body = (if neg then tl s else s);
          ip = takeWhile (\<lambda>c. c \<noteq> CHR ''.'') body;
          rest = dropWhile (\<lambda>c. c \<noteq> CHR ''.'') body;
          fp = drop 1 rest
      in if ip = [] \<or> (rest \<noteq> [] \<and> fp = []) then (0, Some (NumError s))
         else (case digitsVal (ip @ fp) 0 of
                 None \<Rightarrow> (0, Some (NumError s))
               | Some n \<Rightarrow>
                   (let v = of_nat n / 10 ^ length fp in (if neg then - v else v, None))))"

section \<open>Sequence checks of \<open>ApplyUpdate\<close>\<close>

lemma parseLevels_wellFormed:
  "\<forall>lvl\<in>set es. wellFormed pf lvl \<Longrightarrow> parseLevels pf es m = (applyLevels pf es m, Inr None)"
  by (induction es arbitrary: m)
     (auto simp: applyLevels_def wellFormed_def levelPrice_def levelQty_def split: prod.splits)

lemma parseDecimal_100 [simp]: "parseDecimal ''100'' = (100, None)"
  by (simp add: parseDecimal_def digitVal_def)

lemma parseDecimal_101 [simp]: "parseDecimal ''101'' = (101, None)"
  by (simp add: parseDecimal_def digitVal_def)

lemma parseDecimal_50 [simp]: "parseDecimal ''50'' = (50, None)"
  by (simp add: parseDecimal_def digitVal_def)

lemma parseDecimal_1 [simp]: "parseDecimal ''1'' = (1, None)"
  by (simp add: parseDecimal_def digitVal_def)

lemma parseDecimal_2 [simp]: "parseDecimal ''2'' = (2, None)"
  by (simp add: parseDecimal_def digitVal_def)

lemma parseDecimal_0 [simp]: "parseDecimal ''0'' = (0, None)"
  by (simp add: parseDecimal_def digitVal_def)

lemma parseDecimal_neg5 [simp]: "parseDecimal ''-5'' = (- 5, None)"
  by (simp add: parseDecimal_def digitVal_def)

lemma parseDecimal_x [simp]: "parseDecimal ''x'' = (0, Some (NumError ''x''))"
  by (simp add: parseDecimal_def digitVal_def)

text \<open>
  Unless \<open>lastID\<close> is the largest \<^verbatim>\<open>int64\<close>, \<open>lastID + 1\<close> is the next integer; at the largest
  value Go's addition wraps to the smallest one, and the tests of \<open>ApplyUpdate\<close> compare
  with that.
\<close>

lemma next_sequence_number:
  assumes "sint (l :: 64 word) \<noteq> 9223372036854775807"
  shows "sint (l + 1) = sint l + 1"
proof -
  have "sint l < 2 ^ 63" using sint_lt [of l] by simp
  with assms have hi: "sint l + 1 < 2 ^ 63" by simp
  have lo: "- (2 ^ 63) \<le> sint l + 1" using sint_ge [of l] by simp
  have "sint (l + 1) = signed_take_bit 63 (sint l + 1)"
    using sint_word_add [of l 1] by simp
  also have "\<dots> = sint l + 1"
    using lo hi by (simp add: signed_take_bit_int_eq_self)
  finally show ?thesis .
qed

text \<open>
  Claim C1. For a diff all of whose entries parse, \<open>ApplyUpdate\<close> calls \<open>set\<close> for every
  bid entry on the bid table and for every ask entry on the ask table, sets \<open>lastID\<close> to
  \<open>FinalID\<close> and returns \<open>nil\<close> exactly when \<open>FirstID \<le> lastID + 1 \<le> FinalID\<close>; otherwise
  the book is returned as it was, with \<open>nil\<close> for a stale diff and \<open>ErrGap\<close> for a gap.
  \<open>lastID + 1\<close> is the \<^verbatim>\<open>int64\<close> addition of the source.
\<close>

theorem applyDiff_applies_iff_acceptable:
  assumes "\<forall>lvl\<in>set (UpdateMsg.Bids upd). wellFormed pf lvl"
    and "\<forall>lvl\<in>set (UpdateMsg.Asks upd). wellFormed pf lvl"
  shows "ApplyUpdate pf ob upd =
     (if sint (FirstID upd) \<le> sint (lastID ob + 1) \<and> sint (lastID ob + 1) \<le> sint (FinalID upd)
      then (ob\<lparr>bids := applyLevels pf (UpdateMsg.Bids upd) (bids ob),
               asks := applyLevels pf (UpdateMsg.Asks upd) (asks ob),
               lastID := FinalID upd\<rparr>, Inr None)
      else (ob, if sint (FinalID upd) < sint (lastID ob + 1) then Inr None
                else Inr (Some ErrGap)))"
  using assms by (auto simp: ApplyUpdate_def parseLevels_wellFormed)

theorem applyDiff_applies_iff_acceptable_witness:
  "wellFormed parseDecimal [''100'', ''1''] \<and> wellFormed parseDecimal [''101'', ''2'']
   \<and> ApplyUpdate parseDecimal New
        \<lparr>FirstID = 1, FinalID = 1, Bids = [[''100'', ''1'']], Asks = [[''101'', ''2'']]\<rparr>
      = (New\<lparr>bids := levelMap_set (newLevelMap True) 100 1,
              asks := levelMap_set (newLevelMap False) 101 2,
              lastID := 1\<rparr>, Inr None)"
  using applyDiff_applies_iff_acceptable [of
      "\<lparr>FirstID = 1, FinalID = 1, Bids = [[''100'', ''1'']], Asks = [[''101'', ''2'']]\<rparr>"
      parseDecimal New]
  by (simp add: wellFormed_def New_def applyLevels_def levelPrice_def levelQty_def)

text \<open>
  Claim C2. A diff that starts after \<open>lastID + 1\<close> and does not end before it is answered
  with \<open>ErrGap\<close>, and the book (both tables and \<open>lastID\<close>) is returned unchanged.
\<close>

theorem applyDiff_gap:
  assumes "sint (lastID ob + 1) < sint (FirstID upd)"
    and "sint (lastID ob + 1) \<le> sint (FinalID upd)"
  shows "ApplyUpdate pf ob upd = (ob, Inr (Some ErrGap))"
  using assms by (simp add: ApplyUpdate_def)

theorem applyDiff_gap_witness:
  "sint ((1000 :: 64 word) + 1) < sint (1050 :: 64 word)
   \<and> sint ((1000 :: 64 word) + 1) \<le> sint (1060 :: 64 word)
   \<and> ApplyUpdate parseDecimal (New\<lparr>lastID := 1000\<rparr>)
        \<lparr>FirstID = 1050, FinalID = 1060, Bids = [[''100'', ''1'']], Asks = []\<rparr>
      = (New\<lparr>lastID := 1000\<rparr>, Inr (Some ErrGap))"
  using applyDiff_gap [of "New\<lparr>lastID := 1000\<rparr>"
      "\<lparr>FirstID = 1050, FinalID = 1060, Bids = [[''100'', ''1'']], Asks = []\<rparr>" parseDecimal]
  by simp

text \<open>
  Claim C3. A diff that ends before \<open>lastID + 1\<close> is answered with \<open>nil\<close> whatever its
  entries are, and nothing that can be observed changes: \<open>BestBid\<close>, \<open>BestAsk\<close>, \<open>GetBids\<close>
  and \<open>GetAsks\<close> for every count, and \<open>GetLastID\<close>.
\<close>

theorem applyDiff_stale:
  assumes "sint (FinalID upd) < sint (lastID ob + 1)"
  shows "snd (ApplyUpdate pf ob upd) = Inr None
    \<and> fst (ApplyUpdate pf ob upd) = ob
    \<and> BestBid (fst (ApplyUpdate pf ob upd)) = BestBid ob
    \<and> BestAsk (fst (ApplyUpdate pf ob upd)) = BestAsk ob
    \<and> (\<forall>n. GetBids (fst (ApplyUpdate pf ob upd)) n = GetBids ob n)
    \<and> (\<forall>n. GetAsks (fst (ApplyUpdate pf ob upd)) n = GetAsks ob n)
    \<and> GetLastID (fst (ApplyUpdate pf ob upd)) = GetLastID ob"
  using assms by (simp add: ApplyUpdate_def)

theorem applyDiff_stale_witness:
  "sint (7 :: 64 word) < sint ((1000 :: 64 word) + 1)
   \<and> ApplyUpdate parseDecimal (New\<lparr>lastID := 1000\<rparr>)
        \<lparr>FirstID = 5, FinalID = 7, Bids = [[''x'']], Asks = [[''100'', ''0'']]\<rparr>
      = (New\<lparr>lastID := 1000\<rparr>, Inr None)"
  using applyDiff_stale [of
      "\<lparr>FirstID = 5, FinalID = 7, Bids = [[''x'']], Asks = [[''100'', ''0'']]\<rparr>"
      "New\<lparr>lastID := 1000\<rparr>" parseDecimal]
  by (simp add: prod_eq_iff)

section \<open>Depth queries\<close>

text \<open>
  Claim C10. With a strictly negative \<open>maxLevels\<close>, \<open>GetBids\<close> and \<open>GetAsks\<close> panic in
  \<^verbatim>\<open>make\<close>, whatever the book holds. With \<open>maxLevels \<ge> 0\<close> they return a list of at most
  \<open>maxLevels\<close> levels, whose prices are the first prices of the side in order.
\<close>

theorem getLevels_negative_count_panics:
  "(maxLevels < 0 \<longrightarrow>
      GetBids ob maxLevels = Inl MakesliceLenOutOfRange
      \<and> GetAsks ob maxLevels = Inl MakesliceLenOutOfRange)
   \<and> (0 \<le> maxLevels \<longrightarrow>
      (\<exists>ls. GetBids ob maxLevels = Inr ls \<and> int (length ls) \<le> maxLevels
          \<and> map Price ls = take (nat maxLevels) (prices (bids ob)))
      \<and> (\<exists>ls. GetAsks ob maxLevels = Inr ls \<and> int (length ls) \<le> maxLevels
          \<and> map Price ls = take (nat maxLevels) (prices (asks ob))))"
proof -
  have take_nth: "map (\<lambda>i. xs ! i) [0 ..< min (length xs) k] = take k xs" for xs :: "'a list" and k
    by (simp add: list_eq_iff_nth_eq)
  have cnt: "nat (min_int (int n) m) = min n (nat m)" if "0 \<le> m" for m n
    using that by (auto simp: min_int_def)
  have neg: "min_int (int n) m < 0" if "m < 0" for m n
    using that by (simp add: min_int_def)
  have nonneg: "\<not> min_int (int n) m < 0" if "0 \<le> m" for m n
    using that by (simp add: min_int_def)
  show ?thesis
  proof (cases "maxLevels < 0")
    case True
    then show ?thesis by (simp add: GetBids_def GetAsks_def neg)
  next
    case False
    then have "0 \<le> maxLevels" by simp
    then show ?thesis
      by (auto simp: GetBids_def GetAsks_def Let_def comp_def nonneg cnt take_nth)
  qed
qed

theorem getLevels_negative_count_panics_witness:
  "GetBids (New :: rat OrderBook) (- 1) = Inl MakesliceLenOutOfRange
   \<and> GetAsks (New :: rat OrderBook) (- 1) = Inl MakesliceLenOutOfRange
   \<and> GetBids ((New :: rat OrderBook)\<lparr>bids := \<lparr>isBid = True, prices = [100, 50],
                  qtyAt = [100 \<mapsto> 1, 50 \<mapsto> 2]\<rparr>\<rparr>) 1
      = Inr [\<lparr>Price = 100, Quantity = 1\<rparr>]"
  using getLevels_negative_count_panics [of "- 1" "New :: rat OrderBook"]
    getLevels_negative_count_panics [of 1 "(New :: rat OrderBook)\<lparr>bids := \<lparr>isBid = True,
      prices = [100, 50], qtyAt = [100 \<mapsto> 1, 50 \<mapsto> 2]\<rparr>\<rparr>"]
  by (simp add: GetBids_def min_int_def lookup_def)

section \<open>Malformed entries\<close>

text \<open>
  Both loops leave with \<^verbatim>\<open>return err1\<close> when \<^verbatim>\<open>err1 != nil || err2 != nil\<close>. When the
  price parses and the quantity does not, \<open>err1\<close> is \<open>nil\<close>: the function reports no error.
\<close>

text \<open>A call that does not return \<open>nil\<close> leaves \<open>lastID\<close> as it was.\<close>

lemma ApplyUpdate_failure_keeps_lastID:
  "snd (ApplyUpdate pf ob upd) \<noteq> Inr None \<Longrightarrow> lastID (fst (ApplyUpdate pf ob upd)) = lastID ob"
  by (auto simp: ApplyUpdate_def split: if_splits prod.splits sum.splits option.splits)

lemma ApplySnapshot_failure_keeps_lastID:
  "snd (ApplySnapshot pf ob snap) \<noteq> Inr None \<Longrightarrow> lastID (fst (ApplySnapshot pf ob snap)) = lastID ob"
  by (auto simp: ApplySnapshot_def Let_def split: if_splits prod.splits sum.splits option.splits)

text \<open>
  Claim C4, evaluated on the book \<open>New\<close> and the acceptable diff
  \<open>FirstID = FinalID = 1\<close> with the single bid entry \<open>[''100'', ''x'']\<close>: the quantity does
  not parse, yet the call returns \<open>nil\<close> and \<open>lastID\<close> advances from 0 to 1.
\<close>

theorem applyDiff_malformed_quantity_advances:
  "snd (parseDecimal ''x'') \<noteq> None
   \<and> ApplyUpdate parseDecimal New
        \<lparr>FirstID = 1, FinalID = 1, Bids = [[''100'', ''x'']], Asks = []\<rparr>
      = (New\<lparr>lastID := 1\<rparr>, Inr None)"
  by (simp add: ApplyUpdate_def New_def)

text \<open>
  Claim C5, evaluated on the book \<open>New\<close> and the snapshot with the single bid entry
  \<open>[''100'', ''x'']\<close>: the quantity does not parse, yet the call returns \<open>nil\<close>, not an
  error; \<open>lastID\<close> stays 0 although the snapshot carries 7.
\<close>

theorem applySnapshot_malformed_quantity_returns_nil:
  "snd (parseDecimal ''x'') \<noteq> None
   \<and> ApplySnapshot parseDecimal New
        \<lparr>LastUpdateID = 7, SnapshotMsg.Bids = [[''100'', ''x'']], SnapshotMsg.Asks = []\<rparr>
      = (New, Inr None)"
  by (simp add: ApplySnapshot_def New_def newLevelMap_def)

section \<open>Facts about the table operations\<close>

lemma set_take_drop_insert: "set (take k xs @ p # drop k xs) = insert p (set xs)"
proof -
  have "set (take k xs) \<union> set (drop k xs) = set xs"
    by (metis append_take_drop_id set_append)
  then show ?thesis by auto
qed

lemma set_take_drop_Suc_subset: "set (take k xs @ drop (Suc k) xs) \<subseteq> set xs"
  by (auto dest: in_set_takeD in_set_dropD)

lemma set_take_drop_Suc_keeps:
  assumes "x \<in> set xs" "k < length xs" "xs ! k \<noteq> x"
  shows "x \<in> set (take k xs @ drop (Suc k) xs)"
proof -
  have "xs = take k xs @ xs ! k # drop (Suc k) xs"
    using assms(2) by (rule id_take_nth_drop)
  then have "set xs = set (take k xs) \<union> insert (xs ! k) (set (drop (Suc k) xs))"
    by (metis set_append list.simps(15))
  with assms show ?thesis by auto
qed

lemma set_insertPrice: "set (prices (insertPrice lm p)) = insert p (set (prices lm))"
  by (simp add: insertPrice_def Let_def set_take_drop_insert del: set_append)

lemma qtyAt_insertPrice [simp]: "qtyAt (insertPrice lm p) = qtyAt lm"
  by (simp add: insertPrice_def Let_def)

lemma qtyAt_removePrice [simp]: "qtyAt (removePrice lm p) = qtyAt lm"
  by (simp add: removePrice_def Let_def)

lemma set_removePrice_subset: "set (prices (removePrice lm p)) \<subseteq> set (prices lm)"
  using set_take_drop_Suc_subset [of "searchPos lm p" "prices lm"]
  by (simp add: removePrice_def Let_def del: set_append)

lemma set_removePrice_keeps:
  "x \<in> set (prices lm) \<Longrightarrow> x \<noteq> p \<Longrightarrow> x \<in> set (prices (removePrice lm p))"
  using set_take_drop_Suc_keeps [of x "prices lm" "searchPos lm p"]
  by (auto simp: removePrice_def Let_def simp del: set_append)

lemma levelMap_set_stores: "q \<noteq> 0 \<Longrightarrow> qtyAt (levelMap_set lm p q) p = Some q"
  by (simp add: levelMap_set_def Let_def)

lemma levelMap_set_listed:
  "q \<noteq> 0 \<Longrightarrow> keysListed lm \<Longrightarrow> p \<in> set (prices (levelMap_set lm p q))"
  by (auto simp: levelMap_set_def Let_def keysListed_def set_insertPrice)

lemma levelMap_set_other_qty: "p' \<noteq> p \<Longrightarrow> qtyAt (levelMap_set lm p' q') p = qtyAt lm p"
  by (simp add: levelMap_set_def Let_def)

lemma levelMap_set_other_listed:
  "p' \<noteq> p \<Longrightarrow> p \<in> set (prices lm) \<Longrightarrow> p \<in> set (prices (levelMap_set lm p' q'))"
  by (auto simp: levelMap_set_def Let_def set_insertPrice intro: set_removePrice_keeps)

lemma keysListed_levelMap_set: "keysListed lm \<Longrightarrow> keysListed (levelMap_set lm p q)"
  unfolding keysListed_def levelMap_set_def Let_def
  by (auto simp: set_insertPrice intro!: set_removePrice_keeps)

lemma applyLevels_Nil [simp]: "applyLevels pf [] lm = lm"
  by (simp add: applyLevels_def)

lemma applyLevels_Cons [simp]:
  "applyLevels pf (l # es) lm = applyLevels pf es (levelMap_set lm (levelPrice pf l) (levelQty pf l))"
  by (simp add: applyLevels_def)

lemma applyLevels_append:
  "applyLevels pf (es1 @ es2) lm = applyLevels pf es2 (applyLevels pf es1 lm)"
  by (simp add: applyLevels_def)

lemma keysListed_applyLevels: "keysListed lm \<Longrightarrow> keysListed (applyLevels pf es lm)"
  by (induction es arbitrary: lm) (simp_all add: keysListed_levelMap_set)

lemma applyLevels_other:
  "\<forall>l\<in>set es. levelPrice pf l \<noteq> p \<Longrightarrow>
     qtyAt (applyLevels pf es lm) p = qtyAt lm p
     \<and> (p \<in> set (prices lm) \<longrightarrow> p \<in> set (prices (applyLevels pf es lm)))"
  by (induction es arbitrary: lm)
     (simp_all add: levelMap_set_other_qty levelMap_set_other_listed)

lemma applyLevels_stores:
  assumes "\<forall>l\<in>set es2. levelPrice pf l \<noteq> levelPrice pf lvl"
    and "keysListed lm" and "levelQty pf lvl \<noteq> 0"
  shows "qtyAt (applyLevels pf (es1 @ lvl # es2) lm) (levelPrice pf lvl) = Some (levelQty pf lvl)
    \<and> levelPrice pf lvl \<in> set (prices (applyLevels pf (es1 @ lvl # es2) lm))"
proof -
  let ?m1 = "applyLevels pf es1 lm"
  let ?m2 = "levelMap_set ?m1 (levelPrice pf lvl) (levelQty pf lvl)"
  have k1: "keysListed ?m1" using assms(2) by (rule keysListed_applyLevels)
  have q: "qtyAt ?m2 (levelPrice pf lvl) = Some (levelQty pf lvl)"
    using assms(3) by (rule levelMap_set_stores)
  have l: "levelPrice pf lvl \<in> set (prices ?m2)"
    using assms(3) k1 by (rule levelMap_set_listed)
  have eq: "applyLevels pf (es1 @ lvl # es2) lm = applyLevels pf es2 ?m2"
    by (simp add: applyLevels_append)
  show ?thesis
    unfolding eq using applyLevels_other [OF assms(1), of ?m2] q l by simp
qed

lemma best_front:
  "prices lm \<noteq> [] \<Longrightarrow> qtyAt lm (prices lm ! 0) = Some q \<Longrightarrow> best lm = (prices lm ! 0, q, True)"
  by (simp add: best_def lookup_def)

lemma GetBids_full_depth:
  assumes "p \<in> set (prices (bids ob))" and "qtyAt (bids ob) p = Some q"
  shows "\<exists>ls. GetBids ob (int (length (prices (bids ob)))) = Inr ls
           \<and> \<lparr>Price = p, Quantity = q\<rparr> \<in> set ls"
proof -
  from assms(1) obtain i where i: "i < length (prices (bids ob))" "prices (bids ob) ! i = p"
    by (auto simp: in_set_conv_nth)
  then show ?thesis
    using assms(2) by (auto simp: GetBids_def min_int_def Let_def lookup_def image_iff intro!: bexI [of _ i])
qed

lemma GetAsks_full_depth:
  assumes "p \<in> set (prices (asks ob))" and "qtyAt (asks ob) p = Some q"
  shows "\<exists>ls. GetAsks ob (int (length (prices (asks ob)))) = Inr ls
           \<and> \<lparr>Price = p, Quantity = q\<rparr> \<in> set ls"
proof -
  from assms(1) obtain i where i: "i < length (prices (asks ob))" "prices (asks ob) ! i = p"
    by (auto simp: in_set_conv_nth)
  then show ?thesis
    using assms(2) by (auto simp: GetAsks_def min_int_def Let_def lookup_def image_iff intro!: bexI [of _ i])
qed

lemma snapshotLevels_positive:
  "snapshotLevels pf es m ps = ((m', ps'), r) \<Longrightarrow> (\<forall>p q. m p = Some q \<longrightarrow> 0 < q)
     \<Longrightarrow> m' p = Some q \<Longrightarrow> 0 < q"
  by (induction es arbitrary: m ps) (auto split: if_splits prod.splits)

lemma Search_loop_done: "\<not> i < j \<Longrightarrow> Search_loop f i j = i"
  by (subst Search_loop.simps) simp

lemma Search_loop_right:
  "i < j \<Longrightarrow> \<not> f ((i + j) div 2) \<Longrightarrow> Search_loop f i j = Search_loop f ((i + j) div 2 + 1) j"
  by (subst Search_loop.simps) simp

lemma Search_loop_left:
  "i < j \<Longrightarrow> f ((i + j) div 2) \<Longrightarrow> Search_loop f i j = Search_loop f i ((i + j) div 2)"
  by (subst Search_loop.simps) simp

text \<open>
  The search reads the predicate, hence the slice, at indices from \<open>i\<close> up to \<open>j - 1\<close> only:
  every \<open>prices lm ! i\<close> of \<open>searchPos\<close> is within the slice.
\<close>

lemma Search_loop_reads_in_range:
  "(\<forall>k. i \<le> k \<and> k < j \<longrightarrow> f k = g k) \<Longrightarrow> Search_loop f i j = Search_loop g i j"
proof (induction f i j rule: Search_loop.induct)
  case (1 f i j)
  show ?case
  proof (cases "i < j")
    case False
    then show ?thesis by (simp add: Search_loop_done)
  next
    case True
    define h where "h = (i + j) div 2"
    from True have h: "i \<le> h" "h < j" by (simp_all add: h_def)
    with "1.prems" have fg: "f h = g h" by blast
    show ?thesis
    proof (cases "f h")
      case fh: True
      have "\<forall>k. i \<le> k \<and> k < h \<longrightarrow> f k = g k"
        using "1.prems" h(2) by (meson less_trans)
      from "1.IH"(2) [OF True h_def [symmetric, THEN sym] _ this] fh
      have "Search_loop f i h = Search_loop g i h" by simp
      moreover have "Search_loop f i j = Search_loop f i h"
        unfolding h_def using True fh [unfolded h_def] by (rule Search_loop_left)
      moreover from fh fg have gh: "g h" by simp
      have "Search_loop g i j = Search_loop g i h"
        unfolding h_def using True gh [unfolded h_def] by (rule Search_loop_left)
      ultimately show ?thesis by simp
    next
      case nfh: False
      have "\<forall>k. h + 1 \<le> k \<and> k < j \<longrightarrow> f k = g k"
        using "1.prems" h(1) by (meson add_leD1 le_trans)
      from "1.IH"(1) [OF True h_def [symmetric, THEN sym] _ this] nfh
      have "Search_loop f (h + 1) j = Search_loop g (h + 1) j" by simp
      moreover have "Search_loop f i j = Search_loop f (h + 1) j"
        unfolding h_def using True nfh [unfolded h_def] by (rule Search_loop_right)
      moreover from nfh fg have ngh: "\<not> g h" by simp
      have "Search_loop g i j = Search_loop g (h + 1) j"
        unfolding h_def using True ngh [unfolded h_def] by (rule Search_loop_right)
      ultimately show ?thesis by simp
    qed
  qed
qed

lemma ApplyUpdate_accepted:
  assumes "sint (FirstID upd) \<le> sint (lastID ob + 1)" and "sint (lastID ob + 1) \<le> sint (FinalID upd)"
    and "\<forall>l\<in>set (UpdateMsg.Bids upd). wellFormed pf l"
    and "\<forall>l\<in>set (UpdateMsg.Asks upd). wellFormed pf l"
  shows "ApplyUpdate pf ob upd =
     (ob\<lparr>bids := applyLevels pf (UpdateMsg.Bids upd) (bids ob),
         asks := applyLevels pf (UpdateMsg.Asks upd) (asks ob),
         lastID := FinalID upd\<rparr>, Inr None)"
  using assms by (simp add: ApplyUpdate_def parseLevels_wellFormed)

lemma snapshotLevels_listed:
  "snapshotLevels pf es m ps = ((m', ps'), r) \<Longrightarrow> set ps \<subseteq> dom m \<Longrightarrow> set ps' \<subseteq> dom m'"
proof (induction es arbitrary: m ps)
  case Nil
  then show ?case by simp
next
  case (Cons lvl es)
  show ?case
  proof (cases "length lvl < 2")
    case True
    with Cons.prems show ?thesis by simp
  next
    case False
    obtain price err1 qty err2 where pq: "pf (lvl ! 0) = (price, err1)" "pf (lvl ! 1) = (qty, err2)"
      by (metis surj_pair)
    show ?thesis
    proof (cases "err1 \<noteq> None \<or> err2 \<noteq> None")
      case True
      with Cons.prems False pq show ?thesis by auto
    next
      case ok: False
      show ?thesis
      proof (cases "0 < qty")
        case True
        with Cons.prems(1) False pq ok
        have "snapshotLevels pf es (m(price \<mapsto> qty)) (ps @ [price]) = ((m', ps'), r)" by simp
        moreover have "set (ps @ [price]) \<subseteq> dom (m(price \<mapsto> qty))"
          using Cons.prems(2) by auto
        ultimately show ?thesis by (rule Cons.IH)
      next
        case nonpos: False
        with Cons.prems(1) False pq ok
        have "snapshotLevels pf es m ps = ((m', ps'), r)" by simp
        then show ?thesis using Cons.prems(2) by (rule Cons.IH)
      qed
    qed
  qed
qed

lemma ApplySnapshot_positive:
  "(qtyAt (bids (fst (ApplySnapshot pf ob snap))) p = Some q \<longrightarrow> 0 < q)
   \<and> (qtyAt (asks (fst (ApplySnapshot pf ob snap))) p = Some q \<longrightarrow> 0 < q)"
proof -
  obtain bm bps br where b: "snapshotLevels pf (SnapshotMsg.Bids snap) Map.empty [] = ((bm, bps), br)"
    by (metis surj_pair)
  obtain am aps ar where a: "snapshotLevels pf (SnapshotMsg.Asks snap) Map.empty [] = ((am, aps), ar)"
    by (metis surj_pair)
  have pb: "bm p = Some q \<Longrightarrow> 0 < q" using snapshotLevels_positive [OF b] by simp
  have pa: "am p = Some q \<Longrightarrow> 0 < q" using snapshotLevels_positive [OF a] by simp
  show ?thesis
    using pa pb by (cases br; cases ar) (simp_all add: ApplySnapshot_def a b Let_def)
qed

lemma ApplySnapshot_listed:
  "set (prices (bids (fst (ApplySnapshot pf ob snap)))) \<subseteq> dom (qtyAt (bids (fst (ApplySnapshot pf ob snap))))
   \<and> set (prices (asks (fst (ApplySnapshot pf ob snap)))) \<subseteq> dom (qtyAt (asks (fst (ApplySnapshot pf ob snap))))"
proof -
  obtain bm bps br where b: "snapshotLevels pf (SnapshotMsg.Bids snap) Map.empty [] = ((bm, bps), br)"
    by (metis surj_pair)
  obtain am aps ar where a: "snapshotLevels pf (SnapshotMsg.Asks snap) Map.empty [] = ((am, aps), ar)"
    by (metis surj_pair)
  have pb: "set bps \<subseteq> dom bm" using snapshotLevels_listed [OF b] by simp
  have pa: "set aps \<subseteq> dom am" using snapshotLevels_listed [OF a] by simp
  show ?thesis
    using pa pb by (cases br; cases ar) (simp_all add: ApplySnapshot_def a b Let_def)
qed


section \<open>A snapshot that fails to parse\<close>

lemma keptLevels_Cons:
  "keptLevels pf (l # es) =
     (if 0 < levelQty pf l then (levelPrice pf l, levelQty pf l) # keptLevels pf es
      else keptLevels pf es)"
  by (simp add: keptLevels_def)

lemma keptLevels_Nil [simp]: "keptLevels pf [] = []"
  by (simp add: keptLevels_def)

lemma keptMap_Nil [simp]: "keptMap pf [] = Map.empty"
  by (simp add: keptMap_def)

lemma keptMap_Cons:
  "m ++ keptMap pf (l # es) =
     (if 0 < levelQty pf l then m(levelPrice pf l \<mapsto> levelQty pf l) ++ keptMap pf es
      else m ++ keptMap pf es)"
proof (cases "0 < levelQty pf l")
  case True
  then have "keptMap pf (l # es) = [levelPrice pf l \<mapsto> levelQty pf l] ++ keptMap pf es"
    by (simp add: keptMap_def keptLevels_Cons)
  then have "m ++ keptMap pf (l # es) = m ++ ([levelPrice pf l \<mapsto> levelQty pf l] ++ keptMap pf es)"
    by (simp only:)
  also have "\<dots> = (m ++ [levelPrice pf l \<mapsto> levelQty pf l]) ++ keptMap pf es"
    by (simp only: map_add_assoc)
  also have "\<dots> = m(levelPrice pf l \<mapsto> levelQty pf l) ++ keptMap pf es"
    by simp
  finally show ?thesis using True by (simp only: if_True)
next
  case False
  then show ?thesis by (simp add: keptMap_def keptLevels_Cons)
qed

lemma keptPrices_Cons:
  "ps @ keptPrices pf (l # es) =
     (if 0 < levelQty pf l then (ps @ [levelPrice pf l]) @ keptPrices pf es
      else ps @ keptPrices pf es)"
  by (simp add: keptPrices_def keptLevels_Cons)

lemma snapshotLevels_step:
  assumes "wellFormed pf l"
  shows "snapshotLevels pf (l # es) m ps =
     (if 0 < levelQty pf l
      then snapshotLevels pf es (m(levelPrice pf l \<mapsto> levelQty pf l)) (ps @ [levelPrice pf l])
      else snapshotLevels pf es m ps)"
proof -
  obtain price err1 qty err2 where pq: "pf (l ! 0) = (price, err1)" "pf (l ! 1) = (qty, err2)"
    by (metis surj_pair)
  with assms have "err1 = None" "err2 = None" "\<not> length l < 2"
    by (simp_all add: wellFormed_def)
  with pq show ?thesis
    by (simp add: levelPrice_def levelQty_def)
qed

lemma snapshotLevels_stop:
  assumes "\<not> wellFormed pf bad"
  shows "snapshotLevels pf (bad # es) m ps =
     ((m, ps), Some (if length bad < 2 then Inl IndexOutOfRange else Inr (snd (pf (bad ! 0)))))"
proof -
  obtain price err1 qty err2 where pq: "pf (bad ! 0) = (price, err1)" "pf (bad ! 1) = (qty, err2)"
    by (metis surj_pair)
  with assms have "length bad < 2 \<or> err1 \<noteq> None \<or> err2 \<noteq> None"
    by (auto simp: wellFormed_def)
  with pq show ?thesis
    by auto
qed

lemma snapshotLevels_fails:
  assumes "\<forall>l\<in>set front. wellFormed pf l" and "\<not> wellFormed pf bad"
  shows "snapshotLevels pf (front @ bad # rear) m ps =
     ((m ++ keptMap pf front, ps @ keptPrices pf front),
      Some (if length bad < 2 then Inl IndexOutOfRange else Inr (snd (pf (bad ! 0)))))"
  using assms(1)
proof (induction front arbitrary: m ps)
  case Nil
  show ?case using snapshotLevels_stop [OF assms(2)]
    by (simp add: keptPrices_def)
next
  case (Cons l front)
  then have wf: "wellFormed pf l" and rest: "\<forall>l\<in>set front. wellFormed pf l" by simp_all
  show ?case
    unfolding append_Cons snapshotLevels_step [OF wf] keptMap_Cons keptPrices_Cons
    by (cases "0 < levelQty pf l") (simp_all only: Cons.IH [OF rest] if_True if_False)
qed

lemma snapshotLevels_complete:
  assumes "\<forall>l\<in>set es. wellFormed pf l"
  shows "snapshotLevels pf es m ps = ((m ++ keptMap pf es, ps @ keptPrices pf es), None)"
  using assms
proof (induction es arbitrary: m ps)
  case Nil
  show ?case by (simp add: keptPrices_def)
next
  case (Cons l es)
  then have wf: "wellFormed pf l" and rest: "\<forall>l\<in>set es. wellFormed pf l" by simp_all
  show ?case
    unfolding snapshotLevels_step [OF wf] keptMap_Cons keptPrices_Cons
    by (cases "0 < levelQty pf l") (simp_all only: Cons.IH [OF rest] if_True if_False)
qed

lemma first_malformed:
  assumes "\<not> (\<forall>l\<in>set es. wellFormed pf l)"
  shows "\<exists>front bad rear. es = front @ bad # rear
    \<and> (\<forall>l\<in>set front. wellFormed pf l) \<and> \<not> wellFormed pf bad"
proof -
  from assms have "\<exists>l\<in>set es. \<not> wellFormed pf l" by simp
  from split_list_first_prop [OF this]
  obtain front bad rear where "es = front @ bad # rear" "\<not> wellFormed pf bad"
    "\<forall>l\<in>set front. \<not> \<not> wellFormed pf l" by blast
  then show ?thesis by auto
qed

lemma ApplySnapshot_complete:
  assumes "\<forall>l\<in>set (SnapshotMsg.Bids snap). wellFormed pf l"
    and "\<forall>l\<in>set (SnapshotMsg.Asks snap). wellFormed pf l"
  shows "ApplySnapshot pf ob snap =
     (\<lparr>lastID = LastUpdateID snap,
       bids = \<lparr>isBid = True, prices = rev (sort (keptPrices pf (SnapshotMsg.Bids snap))),
               qtyAt = keptMap pf (SnapshotMsg.Bids snap)\<rparr>,
       asks = \<lparr>isBid = False, prices = sort (keptPrices pf (SnapshotMsg.Asks snap)),
               qtyAt = keptMap pf (SnapshotMsg.Asks snap)\<rparr>\<rparr>, Inr None)"
  by (simp add: ApplySnapshot_def snapshotLevels_complete [OF assms(1)]
      snapshotLevels_complete [OF assms(2)])

lemma ApplySnapshot_bid_fails:
  assumes "SnapshotMsg.Bids snap = front @ bad # rear"
    and "\<forall>l\<in>set front. wellFormed pf l" and "\<not> wellFormed pf bad"
  shows "ApplySnapshot pf ob snap =
     (\<lparr>lastID = lastID ob,
       bids = \<lparr>isBid = True, prices = [], qtyAt = keptMap pf front\<rparr>,
       asks = \<lparr>isBid = False, prices = [], qtyAt = Map.empty\<rparr>\<rparr>,
      if length bad < 2 then Inl IndexOutOfRange else Inr (snd (pf (bad ! 0))))"
  by (simp add: ApplySnapshot_def assms(1) snapshotLevels_fails [OF assms(2,3)])

lemma ApplySnapshot_ask_fails:
  assumes "\<forall>l\<in>set (SnapshotMsg.Bids snap). wellFormed pf l"
    and "SnapshotMsg.Asks snap = front @ bad # rear"
    and "\<forall>l\<in>set front. wellFormed pf l" and "\<not> wellFormed pf bad"
  shows "ApplySnapshot pf ob snap =
     (\<lparr>lastID = lastID ob,
       bids = \<lparr>isBid = True, prices = rev (sort (keptPrices pf (SnapshotMsg.Bids snap))),
               qtyAt = keptMap pf (SnapshotMsg.Bids snap)\<rparr>,
       asks = \<lparr>isBid = False, prices = [], qtyAt = keptMap pf front\<rparr>\<rparr>,
      if length bad < 2 then Inl IndexOutOfRange else Inr (snd (pf (bad ! 0))))"
  by (simp add: ApplySnapshot_def assms(2) snapshotLevels_complete [OF assms(1)]
      snapshotLevels_fails [OF assms(3,4)])

text \<open>
  What a call of \<open>ApplySnapshot\<close> that returns an error \<open>e\<close> leaves: the price of a bid
  entry failed after the well-formed bid entries \<open>front\<close>, or all bid entries are well
  formed and the price of an ask entry failed after the well-formed ask entries \<open>front\<close>.
\<close>

lemma ApplySnapshot_error_state:
  assumes "ApplySnapshot pf ob snap = (ob', Inr (Some e))"
  shows "lastID ob' = lastID ob
    \<and> ((\<exists>front bad rear. SnapshotMsg.Bids snap = front @ bad # rear
           \<and> (\<forall>l\<in>set front. wellFormed pf l) \<and> snd (pf (bad ! 0)) = Some e
           \<and> bids ob' = \<lparr>isBid = True, prices = [], qtyAt = keptMap pf front\<rparr>
           \<and> asks ob' = \<lparr>isBid = False, prices = [], qtyAt = Map.empty\<rparr>)
       \<or> ((\<forall>l\<in>set (SnapshotMsg.Bids snap). wellFormed pf l)
           \<and> (\<exists>front bad rear. SnapshotMsg.Asks snap = front @ bad # rear
               \<and> (\<forall>l\<in>set front. wellFormed pf l) \<and> snd (pf (bad ! 0)) = Some e
               \<and> bids ob' = \<lparr>isBid = True,
                     prices = rev (sort (keptPrices pf (SnapshotMsg.Bids snap))),
                     qtyAt = keptMap pf (SnapshotMsg.Bids snap)\<rparr>
               \<and> asks ob' = \<lparr>isBid = False, prices = [], qtyAt = keptMap pf front\<rparr>)))"
proof (cases "\<forall>l\<in>set (SnapshotMsg.Bids snap). wellFormed pf l")
  case False
  from first_malformed [OF this] obtain front bad rear
    where sp: "SnapshotMsg.Bids snap = front @ bad # rear" "\<forall>l\<in>set front. wellFormed pf l"
      "\<not> wellFormed pf bad" by blast
  from ApplySnapshot_bid_fails [OF sp, of ob] assms
  have "ob' = \<lparr>lastID = lastID ob,
       bids = \<lparr>isBid = True, prices = [], qtyAt = keptMap pf front\<rparr>,
       asks = \<lparr>isBid = False, prices = [], qtyAt = Map.empty\<rparr>\<rparr>"
    and "snd (pf (bad ! 0)) = Some e"
    by (simp_all split: if_splits)
  then have "lastID ob' = lastID ob"
    and "bids ob' = \<lparr>isBid = True, prices = [], qtyAt = keptMap pf front\<rparr>"
    and "asks ob' = \<lparr>isBid = False, prices = [], qtyAt = Map.empty\<rparr>"
    and "snd (pf (bad ! 0)) = Some e"
    by simp_all
  with sp(1,2) show ?thesis by blast
next
  case bidsok: True
  show ?thesis
  proof (cases "\<forall>l\<in>set (SnapshotMsg.Asks snap). wellFormed pf l")
    case True
    from ApplySnapshot_complete [OF bidsok True, of ob] assms show ?thesis by simp
  next
    case False
    from first_malformed [OF this] obtain front bad rear
      where sp: "SnapshotMsg.Asks snap = front @ bad # rear" "\<forall>l\<in>set front. wellFormed pf l"
        "\<not> wellFormed pf bad" by blast
    from ApplySnapshot_ask_fails [OF bidsok sp, of ob] assms
    have "ob' = \<lparr>lastID = lastID ob,
         bids = \<lparr>isBid = True, prices = rev (sort (keptPrices pf (SnapshotMsg.Bids snap))),
                 qtyAt = keptMap pf (SnapshotMsg.Bids snap)\<rparr>,
         asks = \<lparr>isBid = False, prices = [], qtyAt = keptMap pf front\<rparr>\<rparr>"
      and "snd (pf (bad ! 0)) = Some e"
      by (simp_all split: if_splits)
    then have "lastID ob' = lastID ob"
      and "bids ob' = \<lparr>isBid = True,
             prices = rev (sort (keptPrices pf (SnapshotMsg.Bids snap))),
             qtyAt = keptMap pf (SnapshotMsg.Bids snap)\<rparr>"
      and "asks ob' = \<lparr>isBid = False, prices = [], qtyAt = keptMap pf front\<rparr>"
      and "snd (pf (bad ! 0)) = Some e"
      by simp_all
    with sp(1,2) bidsok show ?thesis by blast
  qed
qed

lemma snapshot_with_malformed_bid_price:
  "ApplySnapshot parseDecimal
      \<lparr>lastID = 5, bids = \<lparr>isBid = True, prices = [50], qtyAt = [50 \<mapsto> 3]\<rparr>,
        asks = \<lparr>isBid = False, prices = [], qtyAt = Map.empty\<rparr>\<rparr>
      \<lparr>LastUpdateID = 7, SnapshotMsg.Bids = [[''100'', ''1''], [''x'', ''1'']],
        SnapshotMsg.Asks = [[''101'', ''2'']]\<rparr>
     = (\<lparr>lastID = 5, bids = \<lparr>isBid = True, prices = [], qtyAt = [100 \<mapsto> 1]\<rparr>,
         asks = \<lparr>isBid = False, prices = [], qtyAt = Map.empty\<rparr>\<rparr>,
        Inr (Some (NumError ''x'')))"
  by (simp add: ApplySnapshot_def)

text \<open>
  Claim C8, evaluated on the book that holds the bid \<open>(50, 3)\<close> with \<open>lastID = 5\<close> and
  the snapshot whose bids are \<open>(100, 1)\<close> and \<open>(x, 1)\<close>. The call returns the error of \<open>x\<close>
  and \<open>lastID\<close> stays 5, but the slice of bid prices is assigned after the loop only: the
  entry processed before the failing one is in the map and not in the slice, which stays
  empty, so that \<open>BestBid\<close> and \<open>GetBids\<close> show no level.
\<close>

theorem failed_snapshot_lists_no_price:
  "snd (ApplySnapshot parseDecimal
      \<lparr>lastID = 5, bids = \<lparr>isBid = True, prices = [50], qtyAt = [50 \<mapsto> 3]\<rparr>,
        asks = \<lparr>isBid = False, prices = [], qtyAt = Map.empty\<rparr>\<rparr>
      \<lparr>LastUpdateID = 7, SnapshotMsg.Bids = [[''100'', ''1''], [''x'', ''1'']],
        SnapshotMsg.Asks = [[''101'', ''2'']]\<rparr>) = Inr (Some (NumError ''x''))
   \<and> wellFormed parseDecimal [''100'', ''1''] \<and> 0 < levelQty parseDecimal [''100'', ''1'']
   \<and> levelPrice parseDecimal [''100'', ''1''] \<notin> set (prices (bids (fst (ApplySnapshot parseDecimal
      \<lparr>lastID = 5, bids = \<lparr>isBid = True, prices = [50], qtyAt = [50 \<mapsto> 3]\<rparr>,
        asks = \<lparr>isBid = False, prices = [], qtyAt = Map.empty\<rparr>\<rparr>
      \<lparr>LastUpdateID = 7, SnapshotMsg.Bids = [[''100'', ''1''], [''x'', ''1'']],
        SnapshotMsg.Asks = [[''101'', ''2'']]\<rparr>))))
   \<and> BestBid (fst (ApplySnapshot parseDecimal
      \<lparr>lastID = 5, bids = \<lparr>isBid = True, prices = [50], qtyAt = [50 \<mapsto> 3]\<rparr>,
        asks = \<lparr>isBid = False, prices = [], qtyAt = Map.empty\<rparr>\<rparr>
      \<lparr>LastUpdateID = 7, SnapshotMsg.Bids = [[''100'', ''1''], [''x'', ''1'']],
        SnapshotMsg.Asks = [[''101'', ''2'']]\<rparr>)) = (0, 0, False)
   \<and> GetBids (fst (ApplySnapshot parseDecimal
      \<lparr>lastID = 5, bids = \<lparr>isBid = True, prices = [50], qtyAt = [50 \<mapsto> 3]\<rparr>,
        asks = \<lparr>isBid = False, prices = [], qtyAt = Map.empty\<rparr>\<rparr>
      \<lparr>LastUpdateID = 7, SnapshotMsg.Bids = [[''100'', ''1''], [''x'', ''1'']],
        SnapshotMsg.Asks = [[''101'', ''2'']]\<rparr>)) 10 = Inr []
   \<and> qtyAt (bids (fst (ApplySnapshot parseDecimal
      \<lparr>lastID = 5, bids = \<lparr>isBid = True, prices = [50], qtyAt = [50 \<mapsto> 3]\<rparr>,
        asks = \<lparr>isBid = False, prices = [], qtyAt = Map.empty\<rparr>\<rparr>
      \<lparr>LastUpdateID = 7, SnapshotMsg.Bids = [[''100'', ''1''], [''x'', ''1'']],
        SnapshotMsg.Asks = [[''101'', ''2'']]\<rparr>))) 100 = Some 1
   \<and> lastID (fst (ApplySnapshot parseDecimal
      \<lparr>lastID = 5, bids = \<lparr>isBid = True, prices = [50], qtyAt = [50 \<mapsto> 3]\<rparr>,
        asks = \<lparr>isBid = False, prices = [], qtyAt = Map.empty\<rparr>\<rparr>
      \<lparr>LastUpdateID = 7, SnapshotMsg.Bids = [[''100'', ''1''], [''x'', ''1'']],
        SnapshotMsg.Asks = [[''101'', ''2'']]\<rparr>)) = 5"
  unfolding snapshot_with_malformed_bid_price
  by (simp add: wellFormed_def levelQty_def levelPrice_def BestBid_def best_def GetBids_def min_int_def)

section \<open>The invariant of the tables\<close>

text \<open>
  \<open>sort.Search\<close> returns the first index at which a monotone predicate holds. On a slice
  sorted in the side's order the predicates of \<open>insertPrice\<close> and \<open>removePrice\<close> are
  monotone, so \<open>set\<close> keeps the invariant, and so does \<open>ApplyUpdate\<close> however it ends.
  \<open>ApplySnapshot\<close> establishes it when both loops run to their end and no kept price
  occurs twice on a side.
\<close>

lemma Search_loop_bounds: "i \<le> j \<Longrightarrow> i \<le> Search_loop f i j \<and> Search_loop f i j \<le> j"
proof (induction f i j rule: Search_loop.induct)
  case (1 f i j)
  show ?case
  proof (cases "i < j")
    case False
    with "1.prems" show ?thesis by (simp add: Search_loop_done)
  next
    case True
    let ?h = "(i + j) div 2"
    from True have h: "i \<le> ?h" "?h < j" by simp_all
    show ?thesis
    proof (cases "f ?h")
      case True
      with \<open>i < j\<close> "1.IH"(2) [of ?h] h show ?thesis
        by (simp add: Search_loop_left)
    next
      case False
      with \<open>i < j\<close> "1.IH"(1) [of ?h] h show ?thesis
        by (simp add: Search_loop_right)
    qed
  qed
qed

lemma Search_loop_first:
  assumes "i \<le> j" and "\<forall>k l. i \<le> k \<and> k \<le> l \<and> l < j \<and> f k \<longrightarrow> f l"
  shows "(\<forall>k. i \<le> k \<and> k < Search_loop f i j \<longrightarrow> \<not> f k)
    \<and> (\<forall>k. Search_loop f i j \<le> k \<and> k < j \<longrightarrow> f k)"
  using assms
proof (induction f i j rule: Search_loop.induct)
  case (1 f i j)
  show ?case
  proof (cases "i < j")
    case False
    with "1.prems"(1) show ?thesis by (auto simp: Search_loop_done)
  next
    case True
    define h where "h = (i + j) div 2"
    from True have h: "i \<le> h" "h < j" by (simp_all add: h_def)
    show ?thesis
    proof (cases "f h")
      case fh: True
      have eq: "Search_loop f i j = Search_loop f i h"
        unfolding h_def using True fh [unfolded h_def] by (rule Search_loop_left)
      have mono: "\<forall>k l. i \<le> k \<and> k \<le> l \<and> l < h \<and> f k \<longrightarrow> f l"
        using "1.prems"(2) h(2) by (meson less_trans)
      have ih: "(\<forall>k. i \<le> k \<and> k < Search_loop f i h \<longrightarrow> \<not> f k)
          \<and> (\<forall>k. Search_loop f i h \<le> k \<and> k < h \<longrightarrow> f k)"
        using "1.IH"(2) [OF True h_def [symmetric, THEN sym] _ h(1) mono] fh by simp
      have up: "f k" if "h \<le> k" "k < j" for k
        using "1.prems"(2) h(1) that fh by blast
      have "\<forall>k. Search_loop f i h \<le> k \<and> k < j \<longrightarrow> f k"
      proof (intro allI impI)
        fix k assume k: "Search_loop f i h \<le> k \<and> k < j"
        show "f k"
        proof (cases "k < h")
          case True
          with k ih show ?thesis by blast
        next
          case False
          then have "h \<le> k" by simp
          with k up [of k] show ?thesis by blast
        qed
      qed
      with ih show ?thesis unfolding eq by blast
    next
      case nfh: False
      have eq: "Search_loop f i j = Search_loop f (h + 1) j"
        unfolding h_def using True nfh [unfolded h_def] by (rule Search_loop_right)
      have mono: "\<forall>k l. h + 1 \<le> k \<and> k \<le> l \<and> l < j \<and> f k \<longrightarrow> f l"
        using "1.prems"(2) h(1) by (meson add_leD1 le_trans)
      have hj: "h + 1 \<le> j" using h(2) by simp
      have ih: "(\<forall>k. h + 1 \<le> k \<and> k < Search_loop f (h + 1) j \<longrightarrow> \<not> f k)
          \<and> (\<forall>k. Search_loop f (h + 1) j \<le> k \<and> k < j \<longrightarrow> f k)"
        using "1.IH"(1) [OF True h_def [symmetric, THEN sym] _ hj mono] nfh by simp
      have low: "\<not> f k" if "i \<le> k" "k \<le> h" for k
        using "1.prems"(2) h(2) that nfh by blast
      have "\<forall>k. i \<le> k \<and> k < Search_loop f (h + 1) j \<longrightarrow> \<not> f k"
      proof (intro allI impI)
        fix k assume k: "i \<le> k \<and> k < Search_loop f (h + 1) j"
        show "\<not> f k"
        proof (cases "k \<le> h")
          case True
          with k low [of k] show ?thesis by blast
        next
          case False
          then have "h + 1 \<le> k" by simp
          with k ih show ?thesis by blast
        qed
      qed
      with ih show ?thesis unfolding eq by blast
    qed
  qed
qed

lemma before_trans: "before lm a b \<Longrightarrow> before lm b c \<Longrightarrow> before lm a c"
  by (auto simp: before_def split: if_splits)

lemma before_irrefl: "\<not> before lm a a"
  by (simp add: before_def)

lemma before_total: "a \<noteq> b \<Longrightarrow> \<not> before lm b a \<Longrightarrow> before lm a b"
  by (auto simp: before_def split: if_splits)

lemma before_update [simp]:
  "before (lm\<lparr>qtyAt := m\<rparr>) = before lm" "before (lm\<lparr>prices := ps\<rparr>) = before lm"
  by (simp_all add: before_def fun_eq_iff)

lemma before_insertPrice [simp]: "before (insertPrice lm p) = before lm"
  by (simp add: before_def fun_eq_iff insertPrice_def Let_def)

lemma before_removePrice [simp]: "before (removePrice lm p) = before lm"
  by (simp add: before_def fun_eq_iff removePrice_def Let_def)

lemma searchPos_before:
  "searchPos lm p = Search_loop (\<lambda>i. \<not> before lm (prices lm ! i) p) 0 (length (prices lm))"
  by (cases "isBid lm") (simp_all add: searchPos_def Search_def before_def not_less Let_def)

lemma searchPos_le: "searchPos lm p \<le> length (prices lm)"
  unfolding searchPos_before using Search_loop_bounds [of 0 "length (prices lm)"] by simp

lemma not_before_mono:
  assumes "sorted_wrt (before lm) xs" and "k \<le> l" and "l < length xs"
    and "\<not> before lm (xs ! k) p"
  shows "\<not> before lm (xs ! l) p"
proof (cases "k = l")
  case True
  with assms(4) show ?thesis by simp
next
  case False
  with assms(2) have "k < l" by simp
  with assms(1,3) have "before lm (xs ! k) (xs ! l)"
    by (simp add: sorted_wrt_iff_nth_less)
  then show ?thesis
    using assms(4) before_trans [of lm "xs ! k" "xs ! l" p] by blast
qed


lemma searchPos_split:
  assumes "sorted_wrt (before lm) (prices lm)"
  shows "(\<forall>k. k < searchPos lm p \<longrightarrow> before lm (prices lm ! k) p)
    \<and> (\<forall>k. searchPos lm p \<le> k \<and> k < length (prices lm) \<longrightarrow> \<not> before lm (prices lm ! k) p)"
proof -
  define f where "f = (\<lambda>i. \<not> before lm (prices lm ! i) p)"
  define n where "n = length (prices lm)"
  have mono: "\<forall>k l. 0 \<le> k \<and> k \<le> l \<and> l < n \<and> f k \<longrightarrow> f l"
  proof (intro allI impI)
    fix k l assume "0 \<le> k \<and> k \<le> l \<and> l < n \<and> f k"
    then have "k \<le> l" "l < length (prices lm)" "\<not> before lm (prices lm ! k) p"
      unfolding f_def n_def by blast+
    from not_before_mono [OF assms this] show "f l"
      unfolding f_def .
  qed
  have "0 \<le> n" by simp
  from Search_loop_first [OF this mono]
  have r: "(\<forall>k. 0 \<le> k \<and> k < Search_loop f 0 n \<longrightarrow> \<not> f k)
    \<and> (\<forall>k. Search_loop f 0 n \<le> k \<and> k < n \<longrightarrow> f k)" .
  have sp: "searchPos lm p = Search_loop f 0 n"
    unfolding f_def n_def by (rule searchPos_before)
  from r have lo: "\<not> f k" if "k < Search_loop f 0 n" for k
    using that by blast
  from r have hi: "f k" if "Search_loop f 0 n \<le> k" "k < n" for k
    using that by blast
  show ?thesis
    unfolding sp
  proof (intro conjI allI impI)
    fix k assume "k < Search_loop f 0 n"
    from lo [OF this] show "before lm (prices lm ! k) p"
      unfolding f_def by blast
  next
    fix k assume "Search_loop f 0 n \<le> k \<and> k < length (prices lm)"
    then have "Search_loop f 0 n \<le> k" "k < n" by (simp_all only: n_def)
    from hi [OF this] show "\<not> before lm (prices lm ! k) p"
      unfolding f_def .
  qed
qed

lemma sorted_wrt_before_distinct: "sorted_wrt (before lm) xs \<Longrightarrow> distinct xs"
  by (induction xs) (auto simp: before_irrefl)

lemma sorted_insertPrice:
  assumes "sorted_wrt (before lm) (prices lm)" and "p \<notin> set (prices lm)"
  shows "sorted_wrt (before lm) (prices (insertPrice lm p))"
proof -
  let ?xs = "prices lm" and ?k = "searchPos lm p"
  have xs: "?xs = take ?k ?xs @ drop ?k ?xs" by simp
  from assms(1) have srt: "sorted_wrt (before lm) (take ?k ?xs @ drop ?k ?xs)" by simp
  have left: "before lm x p" if "x \<in> set (take ?k ?xs)" for x
  proof -
    from that obtain i where "i < ?k" "i < length ?xs" "x = ?xs ! i"
      by (auto simp: in_set_conv_nth)
    with searchPos_split [OF assms(1), of p] show ?thesis by simp
  qed
  have right: "before lm p y" if "y \<in> set (drop ?k ?xs)" for y
  proof -
    from that obtain j where j: "j < length (drop ?k ?xs)" "drop ?k ?xs ! j = y"
      unfolding in_set_conv_nth by blast
    define i where "i = ?k + j"
    from j have i: "?k \<le> i" "i < length ?xs" "?xs ! i = y"
      using searchPos_le [of lm p] by (simp_all add: i_def)
    with searchPos_split [OF assms(1), of p] have "\<not> before lm y p" by blast
    moreover from that have "y \<in> set ?xs" by (rule in_set_dropD)
    with assms(2) have "p \<noteq> y" by auto
    ultimately show ?thesis by (rule before_total [rotated])
  qed
  from srt have parts: "sorted_wrt (before lm) (take ?k ?xs)" "sorted_wrt (before lm) (drop ?k ?xs)"
    "\<forall>x\<in>set (take ?k ?xs). \<forall>y\<in>set (drop ?k ?xs). before lm x y"
    unfolding sorted_wrt_append by blast+
  with left right have "sorted_wrt (before lm) (take ?k ?xs @ p # drop ?k ?xs)"
    unfolding sorted_wrt_append by simp
  then show ?thesis by (simp add: insertPrice_def Let_def)
qed

lemma removePrice_found:
  assumes "sorted_wrt (before lm) (prices lm)" and "p \<in> set (prices lm)"
  shows "searchPos lm p < length (prices lm) \<and> prices lm ! searchPos lm p = p"
proof -
  let ?xs = "prices lm" and ?k = "searchPos lm p"
  from assms(2) obtain i where i: "i < length ?xs" "?xs ! i = p"
    by (auto simp: in_set_conv_nth)
  have ki: "?k \<le> i"
  proof (rule ccontr)
    assume "\<not> ?k \<le> i"
    then have "i < ?k" by simp
    with searchPos_split [OF assms(1), of p] have "before lm (?xs ! i) p" by blast
    with i show False by (simp add: before_irrefl)
  qed
  with i have kn: "?k < length ?xs" by simp
  have "?xs ! ?k = p"
  proof (rule ccontr)
    assume ne: "?xs ! ?k \<noteq> p"
    with i ki have "?k < i" by (cases "?k = i") auto
    with assms(1) i have "before lm (?xs ! ?k) p" by (auto simp: sorted_wrt_iff_nth_less)
    with searchPos_split [OF assms(1), of p] kn show False by blast
  qed
  with kn show ?thesis by simp
qed

lemma sorted_wrt_take_drop_Suc:
  "sorted_wrt R xs \<Longrightarrow> sorted_wrt R (take k xs @ drop (Suc k) xs)"
proof -
  assume s: "sorted_wrt R xs"
  have "xs = take k xs @ drop k xs" by simp
  with s have "sorted_wrt R (take k xs @ drop k xs)" by simp
  then have "sorted_wrt R (take k xs)" "sorted_wrt R (drop k xs)"
    "\<forall>x\<in>set (take k xs). \<forall>y\<in>set (drop k xs). R x y"
    unfolding sorted_wrt_append by blast+
  moreover have "drop (Suc k) xs = tl (drop k xs)" by (simp add: drop_Suc tl_drop)
  ultimately show ?thesis
    by (cases "drop k xs") (auto simp: sorted_wrt_append)
qed

lemma sorted_removePrice:
  "sorted_wrt (before lm) (prices lm) \<Longrightarrow> sorted_wrt (before lm) (prices (removePrice lm p))"
  by (simp add: removePrice_def Let_def sorted_wrt_take_drop_Suc)

lemma set_take_drop_Suc_distinct:
  assumes "distinct xs" "k < length xs"
  shows "set (take k xs @ drop (Suc k) xs) = set xs - {xs ! k}"
proof -
  have xs: "xs = take k xs @ xs ! k # drop (Suc k) xs"
    using assms(2) by (rule id_take_nth_drop)
  then have "distinct (take k xs @ xs ! k # drop (Suc k) xs)" using assms(1) by simp
  then have "xs ! k \<notin> set (take k xs)" "xs ! k \<notin> set (drop (Suc k) xs)" by auto
  moreover have "set xs = set (take k xs) \<union> insert (xs ! k) (set (drop (Suc k) xs))"
    using xs by (metis set_append list.simps(15))
  ultimately show ?thesis by auto
qed

lemma set_removePrice:
  assumes "sorted_wrt (before lm) (prices lm)"
  shows "set (prices (removePrice lm p)) = set (prices lm) - {p}"
proof (cases "p \<in> set (prices lm)")
  case True
  from removePrice_found [OF assms True] sorted_wrt_before_distinct [OF assms]
  show ?thesis
    by (simp add: removePrice_def Let_def set_take_drop_Suc_distinct del: set_append)
next
  case False
  then have "\<not> (searchPos lm p < length (prices lm) \<and> prices lm ! searchPos lm p = p)"
    by (auto simp: in_set_conv_nth)
  with False show ?thesis by (auto simp: removePrice_def Let_def)
qed

lemma isBid_levelMap_set [simp]: "isBid (levelMap_set lm p q) = isBid lm"
  by (simp add: levelMap_set_def Let_def insertPrice_def removePrice_def)

lemma before_levelMap_set [simp]: "before (levelMap_set lm p q) = before lm"
  by (simp add: before_def fun_eq_iff)

lemma tableInv_levelMap_set:
  assumes "tableInv lm"
  shows "tableInv (levelMap_set lm p q)"
proof -
  from assms have s: "sorted_wrt (before lm) (prices lm)" and d: "set (prices lm) = dom (qtyAt lm)"
    by (simp_all add: tableInv_def)
  show ?thesis
  proof (cases "q = 0")
    case True
    show ?thesis
    proof (cases "qtyAt lm p = None")
      case True
      with \<open>q = 0\<close> assms show ?thesis by (simp add: levelMap_set_def)
    next
      case False
      let ?lm = "lm\<lparr>qtyAt := (qtyAt lm)(p := None)\<rparr>"
      have eq: "levelMap_set lm p q = removePrice ?lm p"
        using \<open>q = 0\<close> False by (simp add: levelMap_set_def)
      have s': "sorted_wrt (before ?lm) (prices ?lm)" using s by simp
      have "sorted_wrt (before ?lm) (prices (removePrice ?lm p))"
        using s' by (rule sorted_removePrice)
      moreover have "set (prices (removePrice ?lm p)) = dom (qtyAt (removePrice ?lm p))"
        using set_removePrice [OF s', of p] d by auto
      ultimately show ?thesis unfolding eq tableInv_def by simp
    qed
  next
    case nz: False
    let ?lm = "lm\<lparr>qtyAt := (qtyAt lm)(p \<mapsto> q)\<rparr>"
    show ?thesis
    proof (cases "qtyAt lm p = None")
      case True
      have eq: "levelMap_set lm p q = insertPrice ?lm p"
        using nz True by (simp add: levelMap_set_def)
      from True d have "p \<notin> set (prices ?lm)" by auto
      moreover have "sorted_wrt (before ?lm) (prices ?lm)" using s by simp
      ultimately have "sorted_wrt (before ?lm) (prices (insertPrice ?lm p))"
        by (rule sorted_insertPrice [rotated])
      moreover have "set (prices (insertPrice ?lm p)) = dom (qtyAt (insertPrice ?lm p))"
        using d by (simp add: set_insertPrice)
      ultimately show ?thesis unfolding eq tableInv_def by (simp add: insertPrice_def Let_def)
    next
      case False
      then have eq: "levelMap_set lm p q = ?lm"
        using nz by (simp add: levelMap_set_def)
      from False d have "insert p (dom (qtyAt lm)) = set (prices lm)" by auto
      with s show ?thesis unfolding eq tableInv_def by simp
    qed
  qed
qed

lemma tableInv_parseLevels: "tableInv lm \<Longrightarrow> tableInv (fst (parseLevels pf es lm))"
proof (induction es arbitrary: lm)
  case Nil
  then show ?case by simp
next
  case (Cons lvl es)
  obtain price err1 qty err2 where pq: "pf (lvl ! 0) = (price, err1)" "pf (lvl ! 1) = (qty, err2)"
    by (metis surj_pair)
  have "tableInv (fst (parseLevels pf es (levelMap_set lm price qty)))"
    using Cons.prems by (intro Cons.IH tableInv_levelMap_set)
  with Cons.prems pq show ?case by simp
qed

lemma tableInv_New: "tableInv (bids New) \<and> tableInv (asks New)"
  by (simp add: tableInv_def New_def newLevelMap_def)

lemma tableInv_ApplyUpdate:
  assumes "tableInv (bids ob)" and "tableInv (asks ob)"
  shows "tableInv (bids (fst (ApplyUpdate pf ob upd))) \<and> tableInv (asks (fst (ApplyUpdate pf ob upd)))"
proof -
  obtain bm br where b: "parseLevels pf (UpdateMsg.Bids upd) (bids ob) = (bm, br)"
    by (metis surj_pair)
  obtain am ar where a: "parseLevels pf (UpdateMsg.Asks upd) (asks ob) = (am, ar)"
    by (metis surj_pair)
  have "tableInv bm" using tableInv_parseLevels [OF assms(1), of pf "UpdateMsg.Bids upd"] b by simp
  moreover have "tableInv am" using tableInv_parseLevels [OF assms(2), of pf "UpdateMsg.Asks upd"] a by simp
  ultimately show ?thesis
    using assms by (auto simp: ApplyUpdate_def a b split: sum.splits option.splits)
qed

lemma dom_keptMap: "dom (keptMap pf es) = set (keptPrices pf es)"
  by (simp add: keptMap_def keptPrices_def dom_map_of_conv_image_fst)

lemma tableInv_ApplySnapshot:
  assumes "\<forall>l\<in>set (SnapshotMsg.Bids snap). wellFormed pf l"
    and "\<forall>l\<in>set (SnapshotMsg.Asks snap). wellFormed pf l"
    and "distinct (keptPrices pf (SnapshotMsg.Bids snap))"
    and "distinct (keptPrices pf (SnapshotMsg.Asks snap))"
  shows "tableInv (bids (fst (ApplySnapshot pf ob snap)))
    \<and> tableInv (asks (fst (ApplySnapshot pf ob snap)))"
proof -
  have up: "sorted_wrt (<) (sort xs)" if "distinct xs" for xs :: "'a list"
    using that by (simp add: strict_sorted_iff)
  have down: "sorted_wrt (\<lambda>a b. b < a) (rev (sort xs))" if "distinct xs" for xs :: "'a list"
    using up [OF that] by (simp add: sorted_wrt_rev)
  have bid: "before lm = (\<lambda>a b. b < a)" if "isBid lm" for lm :: "'a levelMap"
    using that by (simp add: before_def fun_eq_iff)
  have ask: "before lm = (<)" if "\<not> isBid lm" for lm :: "'a levelMap"
    using that by (simp add: before_def fun_eq_iff)
  show ?thesis
    unfolding ApplySnapshot_complete [OF assms(1,2)]
    using up [OF assms(4)] down [OF assms(3)]
    by (simp add: tableInv_def bid ask dom_keptMap)
qed


lemma duplicate_snapshot_loaded:
  "ApplySnapshot parseDecimal New
      \<lparr>LastUpdateID = 1, SnapshotMsg.Bids = [[''100'', ''1''], [''100'', ''2'']],
        SnapshotMsg.Asks = []\<rparr>
     = (\<lparr>lastID = 1, bids = \<lparr>isBid = True, prices = [100, 100], qtyAt = [100 \<mapsto> 2]\<rparr>,
         asks = \<lparr>isBid = False, prices = [], qtyAt = Map.empty\<rparr>\<rparr>, Inr None)"
  by (simp add: ApplySnapshot_def New_def newLevelMap_def)

lemma duplicate_then_delete:
  "ApplyUpdate parseDecimal
      \<lparr>lastID = 1, bids = \<lparr>isBid = True, prices = [100, 100], qtyAt = [100 \<mapsto> 2]\<rparr>,
        asks = \<lparr>isBid = False, prices = [], qtyAt = Map.empty\<rparr>\<rparr>
      \<lparr>FirstID = 2, FinalID = 2, Bids = [[''100'', ''0'']], Asks = []\<rparr>
     = (\<lparr>lastID = 2, bids = \<lparr>isBid = True, prices = [100], qtyAt = Map.empty\<rparr>,
         asks = \<lparr>isBid = False, prices = [], qtyAt = Map.empty\<rparr>\<rparr>, Inr None)"
proof -
  have pos: "searchPos \<lparr>isBid = True, prices = [100, 100 :: rat], qtyAt = Map.empty\<rparr> 100 = 0"
    by (simp add: searchPos_def Search_def Search_loop_left Search_loop_done)
  show ?thesis
    by (simp add: ApplyUpdate_def levelMap_set_def removePrice_def pos)
qed


text \<open>
  Claim C6, evaluated on the book \<open>New\<close> and the snapshot whose bids are \<open>(100, 1)\<close> and
  \<open>(100, 2)\<close>: \<open>ApplySnapshot\<close> appends the price once per entry, where \<open>set\<close> would look
  the key up first, and the slice of bid prices is \<open>[100, 100]\<close>. The diff that then
  deletes the level 100 removes one occurrence only: the slice lists a price the map no
  longer holds, and \<open>BestBid\<close> returns it with the quantity 0.
\<close>

theorem snapshot_with_repeated_price_breaks_table:
  "snd (ApplySnapshot parseDecimal New
      \<lparr>LastUpdateID = 1, SnapshotMsg.Bids = [[''100'', ''1''], [''100'', ''2'']],
        SnapshotMsg.Asks = []\<rparr>) = Inr None
   \<and> prices (bids (fst (ApplySnapshot parseDecimal New
      \<lparr>LastUpdateID = 1, SnapshotMsg.Bids = [[''100'', ''1''], [''100'', ''2'']],
        SnapshotMsg.Asks = []\<rparr>))) = [100, 100]
   \<and> \<not> distinct (prices (bids (fst (ApplySnapshot parseDecimal New
      \<lparr>LastUpdateID = 1, SnapshotMsg.Bids = [[''100'', ''1''], [''100'', ''2'']],
        SnapshotMsg.Asks = []\<rparr>))))
   \<and> \<not> tableInv (bids (fst (ApplySnapshot parseDecimal New
      \<lparr>LastUpdateID = 1, SnapshotMsg.Bids = [[''100'', ''1''], [''100'', ''2'']],
        SnapshotMsg.Asks = []\<rparr>)))
   \<and> snd (ApplyUpdate parseDecimal (fst (ApplySnapshot parseDecimal New
      \<lparr>LastUpdateID = 1, SnapshotMsg.Bids = [[''100'', ''1''], [''100'', ''2'']],
        SnapshotMsg.Asks = []\<rparr>))
      \<lparr>FirstID = 2, FinalID = 2, Bids = [[''100'', ''0'']], Asks = []\<rparr>) = Inr None
   \<and> prices (bids (fst (ApplyUpdate parseDecimal (fst (ApplySnapshot parseDecimal New
      \<lparr>LastUpdateID = 1, SnapshotMsg.Bids = [[''100'', ''1''], [''100'', ''2'']],
        SnapshotMsg.Asks = []\<rparr>))
      \<lparr>FirstID = 2, FinalID = 2, Bids = [[''100'', ''0'']], Asks = []\<rparr>))) = [100]
   \<and> qtyAt (bids (fst (ApplyUpdate parseDecimal (fst (ApplySnapshot parseDecimal New
      \<lparr>LastUpdateID = 1, SnapshotMsg.Bids = [[''100'', ''1''], [''100'', ''2'']],
        SnapshotMsg.Asks = []\<rparr>))
      \<lparr>FirstID = 2, FinalID = 2, Bids = [[''100'', ''0'']], Asks = []\<rparr>))) = Map.empty
   \<and> BestBid (fst (ApplyUpdate parseDecimal (fst (ApplySnapshot parseDecimal New
      \<lparr>LastUpdateID = 1, SnapshotMsg.Bids = [[''100'', ''1''], [''100'', ''2'']],
        SnapshotMsg.Asks = []\<rparr>))
      \<lparr>FirstID = 2, FinalID = 2, Bids = [[''100'', ''0'']], Asks = []\<rparr>)) = (100, 0, True)"
  unfolding duplicate_snapshot_loaded fst_conv snd_conv duplicate_then_delete
  by (simp add: tableInv_def before_irrefl BestBid_def best_def lookup_def)

section \<open>Negative quantities\<close>

text \<open>
  \<open>New\<close> lists every key, \<open>set\<close> keeps every key listed, hence \<open>ApplyUpdate\<close> does however
  it ends, and \<open>ApplySnapshot\<close> lists every key when both of its loops run to their end.
\<close>

lemma keysListed_New: "keysListed (bids New) \<and> keysListed (asks New)"
  by (simp add: keysListed_def New_def newLevelMap_def)

lemma keysListed_parseLevels: "keysListed lm \<Longrightarrow> keysListed (fst (parseLevels pf es lm))"
proof (induction es arbitrary: lm)
  case Nil
  then show ?case by simp
next
  case (Cons lvl es)
  obtain price err1 qty err2 where pq: "pf (lvl ! 0) = (price, err1)" "pf (lvl ! 1) = (qty, err2)"
    by (metis surj_pair)
  have "keysListed (fst (parseLevels pf es (levelMap_set lm price qty)))"
    using Cons.prems by (intro Cons.IH keysListed_levelMap_set)
  with Cons.prems pq show ?case by simp
qed

lemma keysListed_ApplyUpdate:
  assumes "keysListed (bids ob)" and "keysListed (asks ob)"
  shows "keysListed (bids (fst (ApplyUpdate pf ob upd)))
    \<and> keysListed (asks (fst (ApplyUpdate pf ob upd)))"
proof -
  obtain bm br where b: "parseLevels pf (UpdateMsg.Bids upd) (bids ob) = (bm, br)"
    by (metis surj_pair)
  obtain am ar where a: "parseLevels pf (UpdateMsg.Asks upd) (asks ob) = (am, ar)"
    by (metis surj_pair)
  have "keysListed bm"
    using keysListed_parseLevels [OF assms(1), of pf "UpdateMsg.Bids upd"] b by simp
  moreover have "keysListed am"
    using keysListed_parseLevels [OF assms(2), of pf "UpdateMsg.Asks upd"] a by simp
  ultimately show ?thesis
    using assms by (auto simp: ApplyUpdate_def a b split: sum.splits option.splits)
qed

lemma keysListed_ApplySnapshot:
  assumes "\<forall>l\<in>set (SnapshotMsg.Bids snap). wellFormed pf l"
    and "\<forall>l\<in>set (SnapshotMsg.Asks snap). wellFormed pf l"
  shows "keysListed (bids (fst (ApplySnapshot pf ob snap)))
    \<and> keysListed (asks (fst (ApplySnapshot pf ob snap)))"
  by (simp add: keysListed_def ApplySnapshot_complete [OF assms] dom_keptMap)

lemma negative_entry_stored:
  assumes "sint (FirstID upd) \<le> sint (lastID ob + 1)" and "sint (lastID ob + 1) \<le> sint (FinalID upd)"
    and "\<forall>l\<in>set (UpdateMsg.Bids upd). wellFormed pf l"
    and "\<forall>l\<in>set (UpdateMsg.Asks upd). wellFormed pf l"
    and "levelQty pf lvl < 0"
    and "\<forall>l\<in>set rear. levelPrice pf l \<noteq> levelPrice pf lvl"
    and "ob' = fst (ApplyUpdate pf ob upd)"
    and "p = levelPrice pf lvl" and "q = levelQty pf lvl"
    and "sb = fst (ApplySnapshot pf ob snap)"
  shows "(UpdateMsg.Bids upd = front @ lvl # rear \<and> keysListed (bids ob) \<longrightarrow>
            qtyAt (bids ob') p = Some q \<and> p \<in> set (prices (bids ob'))
            \<and> (\<exists>ls. GetBids ob' (int (length (prices (bids ob')))) = Inr ls
                  \<and> \<lparr>Price = p, Quantity = q\<rparr> \<in> set ls)
            \<and> (prices (bids ob') ! 0 = p \<longrightarrow> BestBid ob' = (p, q, True)))
       \<and> (UpdateMsg.Asks upd = front @ lvl # rear \<and> keysListed (asks ob) \<longrightarrow>
            qtyAt (asks ob') p = Some q \<and> p \<in> set (prices (asks ob'))
            \<and> (\<exists>ls. GetAsks ob' (int (length (prices (asks ob')))) = Inr ls
                  \<and> \<lparr>Price = p, Quantity = q\<rparr> \<in> set ls)
            \<and> (prices (asks ob') ! 0 = p \<longrightarrow> BestAsk ob' = (p, q, True)))
       \<and> (\<forall>p' q'. qtyAt (bids sb) p' = Some q' \<longrightarrow> 0 < q')
       \<and> (\<forall>p' q'. qtyAt (asks sb) p' = Some q' \<longrightarrow> 0 < q')
       \<and> set (prices (bids sb)) \<subseteq> dom (qtyAt (bids sb))
       \<and> set (prices (asks sb)) \<subseteq> dom (qtyAt (asks sb))"
proof -
  have nz: "levelQty pf lvl \<noteq> 0" using assms(5) by simp
  have ob': "bids ob' = applyLevels pf (UpdateMsg.Bids upd) (bids ob)"
    "asks ob' = applyLevels pf (UpdateMsg.Asks upd) (asks ob)"
    using ApplyUpdate_accepted [OF assms(1-4)] assms(7) by simp_all
  have side: "qtyAt lm' p = Some q \<and> p \<in> set (prices lm')
      \<and> (prices lm' ! 0 = p \<longrightarrow> best lm' = (p, q, True))"
    if "lm' = applyLevels pf (front @ lvl # rear) lm" "keysListed lm" for lm lm'
  proof -
    have s: "qtyAt lm' p = Some q \<and> p \<in> set (prices lm')"
      using applyLevels_stores [OF assms(6) that(2) nz, of front] that(1) assms(8,9) by simp
    then have "prices lm' \<noteq> []" by auto
    with s show ?thesis by (auto dest: best_front)
  qed
  have bidside: "qtyAt (bids ob') p = Some q \<and> p \<in> set (prices (bids ob'))
            \<and> (\<exists>ls. GetBids ob' (int (length (prices (bids ob')))) = Inr ls
                  \<and> \<lparr>Price = p, Quantity = q\<rparr> \<in> set ls)
            \<and> (prices (bids ob') ! 0 = p \<longrightarrow> BestBid ob' = (p, q, True))"
    if "UpdateMsg.Bids upd = front @ lvl # rear" "keysListed (bids ob)"
    using side [of "bids ob'" "bids ob"] that ob'(1) GetBids_full_depth [of p ob' q]
    by (simp add: BestBid_def)
  have askside: "qtyAt (asks ob') p = Some q \<and> p \<in> set (prices (asks ob'))
            \<and> (\<exists>ls. GetAsks ob' (int (length (prices (asks ob')))) = Inr ls
                  \<and> \<lparr>Price = p, Quantity = q\<rparr> \<in> set ls)
            \<and> (prices (asks ob') ! 0 = p \<longrightarrow> BestAsk ob' = (p, q, True))"
    if "UpdateMsg.Asks upd = front @ lvl # rear" "keysListed (asks ob)"
    using side [of "asks ob'" "asks ob"] that ob'(2) GetAsks_full_depth [of p ob' q]
    by (simp add: BestAsk_def)
  have snap: "(\<forall>p' q'. qtyAt (bids sb) p' = Some q' \<longrightarrow> 0 < q')
       \<and> (\<forall>p' q'. qtyAt (asks sb) p' = Some q' \<longrightarrow> 0 < q')
       \<and> set (prices (bids sb)) \<subseteq> dom (qtyAt (bids sb))
       \<and> set (prices (asks sb)) \<subseteq> dom (qtyAt (asks sb))"
    using ApplySnapshot_positive [of pf ob snap] ApplySnapshot_listed [of pf ob snap] assms(10)
    by blast
  show ?thesis
    using bidside askside snap by blast
qed

text \<open>
  Claim C9, amended. \<open>set\<close> deletes on \<open>qty == 0\<close> only, so a diff entry whose price
  parses to a number and whose quantity parses to a strictly negative number is stored.
  In a book whose side lists every key of its map, after an accepted diff all of whose
  entries parse, the price of such an entry (when no later entry of the same side names
  the same price again) is mapped to the negative quantity and listed in the slice of
  prices; it is returned by \<open>GetBids\<close> or \<open>GetAsks\<close> at full depth, and by \<open>BestBid\<close> or
  \<open>BestAsk\<close> when it is the first price. \<open>ApplySnapshot\<close>, with its test \<open>qty > 0\<close>,
  leaves only strictly positive quantities in the maps and only keys of the maps in the
  slices. Every key is listed in the book \<open>New\<close>, after \<open>ApplyUpdate\<close> on a book that
  listed every key, and after \<open>ApplySnapshot\<close> on a message all of whose entries parse.
  The prices and quantities of the model are the \<^verbatim>\<open>float64\<close> values that are numbers.
\<close>

theorem negative_quantity_is_stored_when_keys_listed:
  assumes "sint (FirstID upd) \<le> sint (lastID ob + 1)" and "sint (lastID ob + 1) \<le> sint (FinalID upd)"
    and "\<forall>l\<in>set (UpdateMsg.Bids upd). wellFormed pf l"
    and "\<forall>l\<in>set (UpdateMsg.Asks upd). wellFormed pf l"
    and "levelQty pf lvl < 0"
    and "\<forall>l\<in>set rear. levelPrice pf l \<noteq> levelPrice pf lvl"
    and "ob' = fst (ApplyUpdate pf ob upd)"
    and "p = levelPrice pf lvl" and "q = levelQty pf lvl"
    and "sb = fst (ApplySnapshot pf ob snap)"
  shows "(UpdateMsg.Bids upd = front @ lvl # rear \<and> keysListed (bids ob) \<longrightarrow>
            qtyAt (bids ob') p = Some q \<and> p \<in> set (prices (bids ob'))
            \<and> (\<exists>ls. GetBids ob' (int (length (prices (bids ob')))) = Inr ls
                  \<and> \<lparr>Price = p, Quantity = q\<rparr> \<in> set ls)
            \<and> (prices (bids ob') ! 0 = p \<longrightarrow> BestBid ob' = (p, q, True)))
       \<and> (UpdateMsg.Asks upd = front @ lvl # rear \<and> keysListed (asks ob) \<longrightarrow>
            qtyAt (asks ob') p = Some q \<and> p \<in> set (prices (asks ob'))
            \<and> (\<exists>ls. GetAsks ob' (int (length (prices (asks ob')))) = Inr ls
                  \<and> \<lparr>Price = p, Quantity = q\<rparr> \<in> set ls)
            \<and> (prices (asks ob') ! 0 = p \<longrightarrow> BestAsk ob' = (p, q, True)))
       \<and> (\<forall>p' q'. qtyAt (bids sb) p' = Some q' \<longrightarrow> 0 < q')
       \<and> (\<forall>p' q'. qtyAt (asks sb) p' = Some q' \<longrightarrow> 0 < q')
       \<and> set (prices (bids sb)) \<subseteq> dom (qtyAt (bids sb))
       \<and> set (prices (asks sb)) \<subseteq> dom (qtyAt (asks sb))
       \<and> keysListed (bids (New :: 'a OrderBook)) \<and> keysListed (asks (New :: 'a OrderBook))
       \<and> (keysListed (bids b) \<and> keysListed (asks b) \<longrightarrow>
            keysListed (bids (fst (ApplyUpdate pf b u)))
            \<and> keysListed (asks (fst (ApplyUpdate pf b u))))
       \<and> ((\<forall>l\<in>set (SnapshotMsg.Bids s). wellFormed pf l)
            \<and> (\<forall>l\<in>set (SnapshotMsg.Asks s). wellFormed pf l) \<longrightarrow>
            keysListed (bids (fst (ApplySnapshot pf b s)))
            \<and> keysListed (asks (fst (ApplySnapshot pf b s))))"
proof -
  note stored = negative_entry_stored [OF assms, of front]
  have kept: "keysListed (bids (fst (ApplyUpdate pf b u)))
      \<and> keysListed (asks (fst (ApplyUpdate pf b u)))"
    if "keysListed (bids b) \<and> keysListed (asks b)"
    using that keysListed_ApplyUpdate [of b pf u] by blast
  have loaded: "keysListed (bids (fst (ApplySnapshot pf b s)))
      \<and> keysListed (asks (fst (ApplySnapshot pf b s)))"
    if "(\<forall>l\<in>set (SnapshotMsg.Bids s). wellFormed pf l)
      \<and> (\<forall>l\<in>set (SnapshotMsg.Asks s). wellFormed pf l)"
    using that keysListed_ApplySnapshot [of s pf b] by blast
  show ?thesis
    using stored keysListed_New [where 'a = 'a] kept loaded by blast
qed

lemma unlisted_after_failed_snapshot:
  "ApplySnapshot parseDecimal New
      \<lparr>LastUpdateID = 7, SnapshotMsg.Bids = [[''100'', ''1''], [''x'', ''1'']],
        SnapshotMsg.Asks = []\<rparr>
     = (\<lparr>lastID = 0, bids = \<lparr>isBid = True, prices = [], qtyAt = [100 \<mapsto> 1]\<rparr>,
         asks = \<lparr>isBid = False, prices = [], qtyAt = Map.empty\<rparr>\<rparr>,
        Inr (Some (NumError ''x'')))"
  by (simp add: ApplySnapshot_def New_def newLevelMap_def)

lemma negative_diff_after_failed_snapshot:
  "ApplyUpdate parseDecimal
      \<lparr>lastID = 0, bids = \<lparr>isBid = True, prices = [], qtyAt = [100 \<mapsto> 1]\<rparr>,
        asks = \<lparr>isBid = False, prices = [], qtyAt = Map.empty\<rparr>\<rparr>
      \<lparr>FirstID = 1, FinalID = 1, Bids = [[''100'', ''-5'']], Asks = []\<rparr>
     = (\<lparr>lastID = 1, bids = \<lparr>isBid = True, prices = [], qtyAt = [100 \<mapsto> - 5]\<rparr>,
         asks = \<lparr>isBid = False, prices = [], qtyAt = Map.empty\<rparr>\<rparr>, Inr None)"
  by (simp add: ApplyUpdate_def levelMap_set_def)

text \<open>
  Claim C9 as stated fails. The snapshot with the bids \<open>(100, 1)\<close> and \<open>(x, 1)\<close> returns the
  error of \<open>x\<close> and leaves the key 100 in the bid map and no price in the bid slice. The
  accepted diff with the bid \<open>(100, -5)\<close> then finds the key, skips \<open>insertPrice\<close>, and the
  level with the negative quantity is in the map but in no slice: \<open>BestBid\<close> and \<open>GetBids\<close>
  show no level.
\<close>

theorem negative_quantity_unlisted_after_failed_snapshot:
  "snd (ApplySnapshot parseDecimal New
      \<lparr>LastUpdateID = 7, SnapshotMsg.Bids = [[''100'', ''1''], [''x'', ''1'']],
        SnapshotMsg.Asks = []\<rparr>) = Inr (Some (NumError ''x''))
   \<and> levelPrice parseDecimal [''100'', ''-5''] = 100
   \<and> levelQty parseDecimal [''100'', ''-5''] < 0
   \<and> snd (ApplyUpdate parseDecimal (fst (ApplySnapshot parseDecimal New
      \<lparr>LastUpdateID = 7, SnapshotMsg.Bids = [[''100'', ''1''], [''x'', ''1'']],
        SnapshotMsg.Asks = []\<rparr>))
      \<lparr>FirstID = 1, FinalID = 1, Bids = [[''100'', ''-5'']], Asks = []\<rparr>) = Inr None
   \<and> lastID (fst (ApplyUpdate parseDecimal (fst (ApplySnapshot parseDecimal New
      \<lparr>LastUpdateID = 7, SnapshotMsg.Bids = [[''100'', ''1''], [''x'', ''1'']],
        SnapshotMsg.Asks = []\<rparr>))
      \<lparr>FirstID = 1, FinalID = 1, Bids = [[''100'', ''-5'']], Asks = []\<rparr>)) = 1
   \<and> qtyAt (bids (fst (ApplyUpdate parseDecimal (fst (ApplySnapshot parseDecimal New
      \<lparr>LastUpdateID = 7, SnapshotMsg.Bids = [[''100'', ''1''], [''x'', ''1'']],
        SnapshotMsg.Asks = []\<rparr>))
      \<lparr>FirstID = 1, FinalID = 1, Bids = [[''100'', ''-5'']], Asks = []\<rparr>))) 100 = Some (- 5)
   \<and> 100 \<notin> set (prices (bids (fst (ApplyUpdate parseDecimal (fst (ApplySnapshot parseDecimal New
      \<lparr>LastUpdateID = 7, SnapshotMsg.Bids = [[''100'', ''1''], [''x'', ''1'']],
        SnapshotMsg.Asks = []\<rparr>))
      \<lparr>FirstID = 1, FinalID = 1, Bids = [[''100'', ''-5'']], Asks = []\<rparr>))))
   \<and> BestBid (fst (ApplyUpdate parseDecimal (fst (ApplySnapshot parseDecimal New
      \<lparr>LastUpdateID = 7, SnapshotMsg.Bids = [[''100'', ''1''], [''x'', ''1'']],
        SnapshotMsg.Asks = []\<rparr>))
      \<lparr>FirstID = 1, FinalID = 1, Bids = [[''100'', ''-5'']], Asks = []\<rparr>)) = (0, 0, False)
   \<and> GetBids (fst (ApplyUpdate parseDecimal (fst (ApplySnapshot parseDecimal New
      \<lparr>LastUpdateID = 7, SnapshotMsg.Bids = [[''100'', ''1''], [''x'', ''1'']],
        SnapshotMsg.Asks = []\<rparr>))
      \<lparr>FirstID = 1, FinalID = 1, Bids = [[''100'', ''-5'']], Asks = []\<rparr>)) 10 = Inr []"
  unfolding unlisted_after_failed_snapshot fst_conv snd_conv negative_diff_after_failed_snapshot
  by (simp add: levelPrice_def levelQty_def BestBid_def best_def GetBids_def min_int_def)

theorem negative_quantity_is_stored_when_keys_listed_witness:
  "levelQty parseDecimal [''100'', ''-5''] < 0
   \<and> qtyAt (bids (fst (ApplyUpdate parseDecimal New
        \<lparr>FirstID = 1, FinalID = 1, Bids = [[''100'', ''-5'']], Asks = [[''101'', ''-5'']]\<rparr>))) 100
       = Some (- 5)
   \<and> 100 \<in> set (prices (bids (fst (ApplyUpdate parseDecimal New
        \<lparr>FirstID = 1, FinalID = 1, Bids = [[''100'', ''-5'']], Asks = [[''101'', ''-5'']]\<rparr>))))
   \<and> qtyAt (asks (fst (ApplyUpdate parseDecimal New
        \<lparr>FirstID = 1, FinalID = 1, Bids = [[''100'', ''-5'']], Asks = [[''101'', ''-5'']]\<rparr>))) 101
       = Some (- 5)
   \<and> 101 \<in> set (prices (asks (fst (ApplyUpdate parseDecimal New
        \<lparr>FirstID = 1, FinalID = 1, Bids = [[''100'', ''-5'']], Asks = [[''101'', ''-5'']]\<rparr>))))"
proof -
  let ?upd = "\<lparr>FirstID = 1, FinalID = 1, Bids = [[''100'', ''-5'']], Asks = [[''101'', ''-5'']]\<rparr>"
  let ?ob = "New :: rat OrderBook"
  have seq: "sint (FirstID ?upd) \<le> sint (lastID ?ob + 1)" "sint (lastID ?ob + 1) \<le> sint (FinalID ?upd)"
    by (simp_all add: New_def)
  have wf: "\<forall>l\<in>set (UpdateMsg.Bids ?upd). wellFormed parseDecimal l"
    "\<forall>l\<in>set (UpdateMsg.Asks ?upd). wellFormed parseDecimal l"
    by (simp_all add: wellFormed_def)
  have neg: "levelQty parseDecimal [''100'', ''-5''] < 0" "levelQty parseDecimal [''101'', ''-5''] < 0"
    by (simp_all add: levelQty_def)
  have last: "\<forall>l\<in>set []. levelPrice parseDecimal l \<noteq> levelPrice parseDecimal [''100'', ''-5'']"
    "\<forall>l\<in>set []. levelPrice parseDecimal l \<noteq> levelPrice parseDecimal [''101'', ''-5'']"
    by simp_all
  have kl: "keysListed (bids ?ob)" "keysListed (asks ?ob)"
    by (simp_all add: keysListed_def New_def newLevelMap_def)
  have val: "levelPrice parseDecimal [''100'', ''-5''] = 100" "levelQty parseDecimal [''100'', ''-5''] = - 5"
    "levelPrice parseDecimal [''101'', ''-5''] = 101" "levelQty parseDecimal [''101'', ''-5''] = - 5"
    by (simp_all add: levelPrice_def levelQty_def)
  have b: "UpdateMsg.Bids ?upd = [] @ [''100'', ''-5''] # []" and a: "UpdateMsg.Asks ?upd = [] @ [''101'', ''-5''] # []"
    by simp_all
  from negative_quantity_is_stored_when_keys_listed [OF seq wf neg(1) last(1) refl refl refl refl, where front = "[]" and snap = "\<lparr>LastUpdateID = 1, SnapshotMsg.Bids = [], SnapshotMsg.Asks = []\<rparr>"] b kl(1)
  have "qtyAt (bids (fst (ApplyUpdate parseDecimal ?ob ?upd))) 100 = Some (- 5)
      \<and> 100 \<in> set (prices (bids (fst (ApplyUpdate parseDecimal ?ob ?upd))))"
    unfolding val by blast
  moreover
  from negative_quantity_is_stored_when_keys_listed [OF seq wf neg(2) last(2) refl refl refl refl, where front = "[]" and snap = "\<lparr>LastUpdateID = 1, SnapshotMsg.Bids = [], SnapshotMsg.Asks = []\<rparr>"] a kl(2)
  have "qtyAt (asks (fst (ApplyUpdate parseDecimal ?ob ?upd))) 101 = Some (- 5)
      \<and> 101 \<in> set (prices (asks (fst (ApplyUpdate parseDecimal ?ob ?upd))))"
    unfolding val by blast
  ultimately show ?thesis using neg(1) by blast
qed

section \<open>Crossed books\<close>

lemma uncrossed_best:
  assumes "uncrossed ob" "prices (bids ob) \<noteq> []" "prices (asks ob) \<noteq> []"
  shows "fst (BestBid ob) < fst (BestAsk ob)"
proof -
  have "prices (bids ob) ! 0 \<in> set (prices (bids ob))" "prices (asks ob) ! 0 \<in> set (prices (asks ob))"
    using assms(2,3) by simp_all
  with assms(1) have "prices (bids ob) ! 0 < prices (asks ob) ! 0"
    unfolding uncrossed_def by blast
  with assms(2,3) show ?thesis
    by (simp add: BestBid_def BestAsk_def best_def Let_def)
qed

lemma set_prices_levelMap_set:
  assumes "tableInv lm"
  shows "set (prices (levelMap_set lm p q)) =
     (if q = 0 then set (prices lm) - {p} else insert p (set (prices lm)))"
proof -
  from assms have s: "sorted_wrt (before lm) (prices lm)" and d: "set (prices lm) = dom (qtyAt lm)"
    by (simp_all add: tableInv_def)
  show ?thesis
  proof (cases "q = 0")
    case True
    show ?thesis
    proof (cases "qtyAt lm p = None")
      case True
      with d have "p \<notin> set (prices lm)" by auto
      with \<open>q = 0\<close> True show ?thesis by (simp add: levelMap_set_def)
    next
      case False
      let ?lm = "lm\<lparr>qtyAt := (qtyAt lm)(p := None)\<rparr>"
      have eq: "levelMap_set lm p q = removePrice ?lm p"
        using \<open>q = 0\<close> False by (simp add: levelMap_set_def)
      have s': "sorted_wrt (before ?lm) (prices ?lm)" using s by simp
      show ?thesis unfolding eq using set_removePrice [OF s', of p] \<open>q = 0\<close> by simp
    qed
  next
    case nz: False
    let ?lm = "lm\<lparr>qtyAt := (qtyAt lm)(p \<mapsto> q)\<rparr>"
    show ?thesis
    proof (cases "qtyAt lm p = None")
      case True
      have eq: "levelMap_set lm p q = insertPrice ?lm p"
        using nz True by (simp add: levelMap_set_def)
      show ?thesis unfolding eq using nz by (simp add: set_insertPrice)
    next
      case False
      then have eq: "levelMap_set lm p q = ?lm"
        using nz by (simp add: levelMap_set_def)
      from False d have "p \<in> set (prices lm)" by auto
      then show ?thesis unfolding eq using nz by auto
    qed
  qed
qed

lemma pricesAfter_Nil [simp]: "pricesAfter pf [] S = S"
  by (simp add: pricesAfter_def)

lemma pricesAfter_Cons [simp]:
  "pricesAfter pf (l # es) S =
     pricesAfter pf es (if levelQty pf l = 0 then S - {levelPrice pf l}
                        else insert (levelPrice pf l) S)"
  by (simp add: pricesAfter_def)

lemma tableInv_applyLevels: "tableInv lm \<Longrightarrow> tableInv (applyLevels pf es lm)"
  by (induction es arbitrary: lm) (simp_all add: tableInv_levelMap_set)

lemma set_prices_applyLevels:
  "tableInv lm \<Longrightarrow> set (prices (applyLevels pf es lm)) = pricesAfter pf es (set (prices lm))"
proof (induction es arbitrary: lm)
  case Nil
  then show ?case by simp
next
  case (Cons l es)
  have "tableInv (levelMap_set lm (levelPrice pf l) (levelQty pf l))"
    using Cons.prems by (rule tableInv_levelMap_set)
  from Cons.IH [OF this] show ?case
    by (simp only: applyLevels_Cons pricesAfter_Cons set_prices_levelMap_set [OF Cons.prems])
qed

lemma isBid_parseLevels [simp]: "isBid (fst (parseLevels pf es lm)) = isBid lm"
proof (induction es arbitrary: lm)
  case Nil
  show ?case by simp
next
  case (Cons lvl es)
  obtain price err1 qty err2 where pq: "pf (lvl ! 0) = (price, err1)" "pf (lvl ! 1) = (qty, err2)"
    by (metis surj_pair)
  have "isBid (fst (parseLevels pf es (levelMap_set lm price qty))) = isBid lm"
    by (simp add: Cons.IH)
  with pq show ?case by simp
qed

lemma bookInv_New: "bookInv New"
  using tableInv_New by (simp add: bookInv_def New_def newLevelMap_def)

lemma bookInv_ApplyUpdate:
  assumes "bookInv ob"
  shows "bookInv (fst (ApplyUpdate pf ob upd))"
proof -
  obtain bm br where b: "parseLevels pf (UpdateMsg.Bids upd) (bids ob) = (bm, br)"
    by (metis surj_pair)
  obtain am ar where a: "parseLevels pf (UpdateMsg.Asks upd) (asks ob) = (am, ar)"
    by (metis surj_pair)
  have ib: "isBid bm = isBid (bids ob)"
    using isBid_parseLevels [of pf "UpdateMsg.Bids upd" "bids ob"] b by simp
  have ia: "isBid am = isBid (asks ob)"
    using isBid_parseLevels [of pf "UpdateMsg.Asks upd" "asks ob"] a by simp
  have sides: "isBid (bids (fst (ApplyUpdate pf ob upd))) = isBid (bids ob)"
    "isBid (asks (fst (ApplyUpdate pf ob upd))) = isBid (asks ob)"
    using ib ia by (auto simp: ApplyUpdate_def a b split: sum.splits option.splits)
  from assms have "tableInv (bids ob)" "tableInv (asks ob)" by (simp_all add: bookInv_def)
  from tableInv_ApplyUpdate [OF this, of pf upd] sides assms show ?thesis
    by (simp add: bookInv_def)
qed

lemma bookInv_ApplySnapshot:
  assumes "\<forall>l\<in>set (SnapshotMsg.Bids snap). wellFormed pf l"
    and "\<forall>l\<in>set (SnapshotMsg.Asks snap). wellFormed pf l"
    and "distinct (keptPrices pf (SnapshotMsg.Bids snap))"
    and "distinct (keptPrices pf (SnapshotMsg.Asks snap))"
  shows "bookInv (fst (ApplySnapshot pf ob snap))"
  using tableInv_ApplySnapshot [OF assms, of ob]
  by (simp add: bookInv_def ApplySnapshot_complete [OF assms(1,2)])

lemma front_is_extreme:
  assumes "sorted_wrt (before lm) (prices lm)" and "x \<in> set (prices lm)"
  shows "x = prices lm ! 0 \<or> before lm (prices lm ! 0) x"
  using assms by (cases "prices lm") auto

lemma best_crossing:
  assumes "bookInv ob" and "prices (bids ob) \<noteq> []" and "prices (asks ob) \<noteq> []"
  shows "fst (BestBid ob) < fst (BestAsk ob) \<longleftrightarrow> uncrossed ob"
proof
  assume "uncrossed ob"
  then show "fst (BestBid ob) < fst (BestAsk ob)" using assms(2,3) by (rule uncrossed_best)
next
  assume lt: "fst (BestBid ob) < fst (BestAsk ob)"
  from assms(2,3) have bb: "fst (BestBid ob) = prices (bids ob) ! 0"
    and ba: "fst (BestAsk ob) = prices (asks ob) ! 0"
    by (simp_all add: BestBid_def BestAsk_def best_def Let_def)
  from assms(1) have sb: "sorted_wrt (before (bids ob)) (prices (bids ob))"
    and sa: "sorted_wrt (before (asks ob)) (prices (asks ob))"
    and ib: "isBid (bids ob)" and ia: "\<not> isBid (asks ob)"
    by (simp_all add: bookInv_def tableInv_def)
  show "uncrossed ob"
    unfolding uncrossed_def
  proof (intro ballI)
    fix b a assume b: "b \<in> set (prices (bids ob))" and a: "a \<in> set (prices (asks ob))"
    from front_is_extreme [OF sb b] ib have "b \<le> prices (bids ob) ! 0"
      by (auto simp: before_def)
    moreover from front_is_extreme [OF sa a] ia have "prices (asks ob) ! 0 \<le> a"
      by (auto simp: before_def)
    ultimately show "b < a" using lt bb ba by simp
  qed
qed


lemma uncrossed_ApplySnapshot_complete:
  assumes "\<forall>l\<in>set (SnapshotMsg.Bids snap). wellFormed pf l"
    and "\<forall>l\<in>set (SnapshotMsg.Asks snap). wellFormed pf l"
  shows "uncrossed (fst (ApplySnapshot pf ob snap)) \<longleftrightarrow>
     (\<forall>b\<in>set (keptPrices pf (SnapshotMsg.Bids snap)).
        \<forall>a\<in>set (keptPrices pf (SnapshotMsg.Asks snap)). b < a)"
  by (simp add: uncrossed_def ApplySnapshot_complete [OF assms])

lemma uncrossed_ApplyUpdate_accepted:
  assumes "bookInv ob"
    and "sint (FirstID upd) \<le> sint (lastID ob + 1)" and "sint (lastID ob + 1) \<le> sint (FinalID upd)"
    and "\<forall>l\<in>set (UpdateMsg.Bids upd). wellFormed pf l"
    and "\<forall>l\<in>set (UpdateMsg.Asks upd). wellFormed pf l"
  shows "uncrossed (fst (ApplyUpdate pf ob upd)) \<longleftrightarrow>
     (\<forall>b\<in>pricesAfter pf (UpdateMsg.Bids upd) (set (prices (bids ob))).
        \<forall>a\<in>pricesAfter pf (UpdateMsg.Asks upd) (set (prices (asks ob))). b < a)"
proof -
  from assms(1) have t: "tableInv (bids ob)" "tableInv (asks ob)" by (simp_all add: bookInv_def)
  show ?thesis
    by (simp add: uncrossed_def ApplyUpdate_accepted [OF assms(2-5)]
        set_prices_applyLevels [OF t(1)] set_prices_applyLevels [OF t(2)])
qed

lemma ApplyUpdate_not_accepted:
  assumes "\<not> (sint (FirstID upd) \<le> sint (lastID ob + 1) \<and> sint (lastID ob + 1) \<le> sint (FinalID upd))"
  shows "fst (ApplyUpdate pf ob upd) = ob"
  using assms by (auto simp: ApplyUpdate_def)


lemma crossed_snapshot_loaded:
  "ApplySnapshot parseDecimal New
      \<lparr>LastUpdateID = 1, SnapshotMsg.Bids = [[''100'', ''1'']], SnapshotMsg.Asks = [[''50'', ''1'']]\<rparr>
     = (\<lparr>lastID = 1, bids = \<lparr>isBid = True, prices = [100], qtyAt = [100 \<mapsto> 1]\<rparr>,
         asks = \<lparr>isBid = False, prices = [50], qtyAt = [50 \<mapsto> 1]\<rparr>\<rparr>, Inr None)"
  by (simp add: ApplySnapshot_def New_def newLevelMap_def)


lemma uncrossed_snapshot_loaded:
  "ApplySnapshot parseDecimal New
      \<lparr>LastUpdateID = 1, SnapshotMsg.Bids = [[''100'', ''1''], [''50'', ''1'']],
        SnapshotMsg.Asks = [[''101'', ''2'']]\<rparr>
     = (\<lparr>lastID = 1, bids = \<lparr>isBid = True, prices = [100, 50], qtyAt = [100 \<mapsto> 1, 50 \<mapsto> 1]\<rparr>,
         asks = \<lparr>isBid = False, prices = [101], qtyAt = [101 \<mapsto> 2]\<rparr>\<rparr>, Inr None)"
  by (simp add: ApplySnapshot_def New_def newLevelMap_def)

lemma uncrossed_diff_applied:
  "ApplyUpdate parseDecimal
      \<lparr>lastID = 1, bids = \<lparr>isBid = True, prices = [100, 50], qtyAt = [100 \<mapsto> 1, 50 \<mapsto> 1]\<rparr>,
        asks = \<lparr>isBid = False, prices = [101], qtyAt = [101 \<mapsto> 2]\<rparr>\<rparr>
      \<lparr>FirstID = 2, FinalID = 2, Bids = [[''100'', ''0'']], Asks = [[''100'', ''1'']]\<rparr>
     = (\<lparr>lastID = 2, bids = \<lparr>isBid = True, prices = [50], qtyAt = [50 \<mapsto> 1]\<rparr>,
         asks = \<lparr>isBid = False, prices = [100, 101], qtyAt = [101 \<mapsto> 2, 100 \<mapsto> 1]\<rparr>\<rparr>, Inr None)"
proof -
  have b: "searchPos \<lparr>isBid = True, prices = [100, 50 :: rat], qtyAt = m\<rparr> 100 = 0" for m
    by (simp add: searchPos_def Search_def Search_loop_left Search_loop_done)
  have a: "searchPos \<lparr>isBid = False, prices = [101 :: rat], qtyAt = m\<rparr> 100 = 0" for m
    by (simp add: searchPos_def Search_def Search_loop_left Search_loop_done)
  have m: "[(100 :: rat) \<mapsto> (1 :: rat), 50 \<mapsto> 1](100 := None) = [50 \<mapsto> 1]"
    by (auto simp: fun_eq_iff)
  show ?thesis
    by (simp add: ApplyUpdate_def levelMap_set_def removePrice_def insertPrice_def a b m)
qed


end
